theory Spec2Isabelle
  imports Complex_Main "HOL-Library.Multiset"
begin

section \<open>SimBA-hap: founder allele fitting (simba-hap.cpp)\<close>

text \<open>
  The development follows \<^verbatim>\<open>src/simba-hap.cpp\<close>. Containers are lists: a
  \<^verbatim>\<open>std::vector\<close> or \<^verbatim>\<open>std::array\<close> is a list, the two-dimensional
  \<^verbatim>\<open>boost::multi_array\<close> of the haplotypes map is a list of rows. The
  \<^verbatim>\<open>float\<close> values of the dosage distributions and of the distances are
  rationals: sums, differences, absolute values and comparisons are exact.
  Sizes and dosage counters (\<^verbatim>\<open>uint32_t\<close>) are natural numbers where they only
  count elements of a container that exists in memory; the 32-bit arithmetic of the
  founders simulation is written out modulo \<open>2^32\<close>.
\<close>

subsection \<open>Genotypes and dosages\<close>

type_synonym haplotypes_map = "nat list list"
type_synonym founders_alts = "nat list"

text \<open>\<^verbatim>\<open>get_dosage\<close>: \<^verbatim>\<open>std::count(genotype.begin(), genotype.end(), value)\<close>.\<close>

definition get_dosage :: "'a list \<Rightarrow> 'a \<Rightarrow> nat" where
  "get_dosage genotype v = count_list genotype v"

text \<open>
  \<^verbatim>\<open>make_dosages_distribution\<close>: an array of \<open>n_ploidy + 1\<close> counters, all zero,
  then one increment per genotype at the index of its dosage of the value 1.
\<close>

definition make_dosages_distribution :: "nat \<Rightarrow> nat list list \<Rightarrow> nat list" where
  "make_dosages_distribution n_ploidy genotypes =
     fold (\<lambda>genotype dosages_d.
             dosages_d[get_dosage genotype 1 := Suc (dosages_d ! get_dosage genotype 1)])
          genotypes (replicate (Suc n_ploidy) 0)"

text \<open>
  \<^verbatim>\<open>normalize_dosages_distribution\<close>: the sum of the entries, then every entry
  \<open>d\<close> replaced by \<open>n_samples * d / dosages_sum\<close>. With a sum of zero the
  float division gives a NaN, which the rationals do not have: what is proved about
  normalization below is proved for a positive sum.
\<close>

definition normalize_dosages_distribution :: "rat list \<Rightarrow> nat \<Rightarrow> rat list" where
  "normalize_dosages_distribution dosages_d n_samples =
     (let dosages_sum = sum_list dosages_d
      in map (\<lambda>d. of_nat n_samples * d / dosages_sum) dosages_d)"

text \<open>
  \<^verbatim>\<open>l1_norm\<close>: \<^verbatim>\<open>std::inner_product\<close> over the two arrays with \<open>+\<close> and
  \<open>|a_i - b_i|\<close>, starting from 0. The first argument is the target (floats), the
  second the counters of a simulated distribution.
\<close>

definition l1_norm :: "rat list \<Rightarrow> nat list \<Rightarrow> rat" where
  "l1_norm a b = (\<Sum>(a_i, b_i)\<leftarrow>zip a b. \<bar>a_i - of_nat b_i\<bar>)"

subsection \<open>Sample allele view\<close>

text \<open>
  \<^verbatim>\<open>fill_samples_alts\<close> stores, for every sample and haplotype slot, a reference
  to the allele of the mapped founder. The view is a live alias of the founders
  vector; here it is recomputed from the current vector at every use.
\<close>

definition fill_samples_alts :: "founders_alts \<Rightarrow> haplotypes_map \<Rightarrow> nat list list" where
  "fill_samples_alts founders_alts haplotypes_m =
     map (map (\<lambda>founder. founders_alts ! founder)) haplotypes_m"

subsection \<open>Greedy descent fitting\<close>

text \<open>\<^verbatim>\<open>std::numeric_limits<float>::max()\<close>, the value \<open>(2 - 2^-23) * 2^127\<close>.\<close>

definition float_max :: rat where
  "float_max = (2 ^ 24 - 1) * 2 ^ 104"

text \<open>
  \<^verbatim>\<open>std::min_element\<close>: the index of the first smallest element; the scan keeps
  the current smallest and replaces it only by a strictly smaller element.
\<close>

primrec min_scan :: "rat list \<Rightarrow> nat \<Rightarrow> rat \<Rightarrow> nat \<Rightarrow> nat" where
  "min_scan [] i smallest smallest_i = smallest_i"
| "min_scan (x # xs) i smallest smallest_i =
     (if x < smallest then min_scan xs (Suc i) x i
      else min_scan xs (Suc i) smallest smallest_i)"

definition min_element :: "rat list \<Rightarrow> nat" where
  "min_element xs = (case xs of [] \<Rightarrow> 0 | x # rest \<Rightarrow> min_scan rest 1 x 0)"

text \<open>
  The lambda of the \<^verbatim>\<open>std::transform\<close> in \<^verbatim>\<open>descent_fitting::fit\<close>, at founder
  \<open>j\<close>: a founder at 1 is not touched and yields the largest float; otherwise
  the allele is set to 1, the distribution of the view is rebuilt, the allele is set
  back to 0 and the distance to the target is the result.
\<close>

definition probe ::
  "nat \<Rightarrow> haplotypes_map \<Rightarrow> rat list \<Rightarrow> founders_alts \<Rightarrow> nat \<Rightarrow> founders_alts \<times> rat" where
  "probe n_ploidy haplotypes_m dosages_d_in founders_alts j =
     (if founders_alts ! j = 1 then (founders_alts, float_max)
      else
        (let alts_one = founders_alts[j := 1];
             dosages_d_x =
               make_dosages_distribution n_ploidy (fill_samples_alts alts_one haplotypes_m);
             alts_zero = alts_one[j := 0]
         in (alts_zero, l1_norm dosages_d_in dosages_d_x)))"

text \<open>The \<^verbatim>\<open>std::transform\<close> itself: the probes in founder order, one distance each.\<close>

fun probe_all ::
  "nat \<Rightarrow> haplotypes_map \<Rightarrow> rat list \<Rightarrow> founders_alts \<Rightarrow> nat list
     \<Rightarrow> founders_alts \<times> rat list" where
  "probe_all n_ploidy haplotypes_m dosages_d_in founders_alts [] = (founders_alts, [])"
| "probe_all n_ploidy haplotypes_m dosages_d_in founders_alts (j # js) =
     (case probe n_ploidy haplotypes_m dosages_d_in founders_alts j of
        (alts', d) \<Rightarrow>
          (case probe_all n_ploidy haplotypes_m dosages_d_in alts' js of
             (alts'', ds) \<Rightarrow> (alts'', d # ds)))"

text \<open>
  One pass of the body of the \<^verbatim>\<open>for\<close> loop: either the \<^verbatim>\<open>break\<close>, or the
  assignment of the new distance and of 1 to the founder at \<open>min_i\<close>.
\<close>

datatype iteration = Break founders_alts | Commit nat founders_alts rat

definition descent_iteration ::
  "nat \<Rightarrow> haplotypes_map \<Rightarrow> rat list \<Rightarrow> founders_alts \<Rightarrow> rat \<Rightarrow> iteration" where
  "descent_iteration n_ploidy haplotypes_m dosages_d_in founders_alts distance =
     (case probe_all n_ploidy haplotypes_m dosages_d_in founders_alts
             [0..<length founders_alts] of
        (alts', distances) \<Rightarrow>
          (let min_i = min_element distances;
               min_distance = distances ! min_i
           in if distance < min_distance then Break alts'
              else Commit min_i (alts'[min_i := 1]) min_distance))"

text \<open>
  The loop \<^verbatim>\<open>for (ones = 0; ones < n_founders; ones++)\<close>. The result holds the
  value of \<open>ones\<close> at the exit, the founders vector and the distance.
\<close>

function descent_loop ::
  "nat \<Rightarrow> haplotypes_map \<Rightarrow> rat list \<Rightarrow> nat \<Rightarrow> nat \<Rightarrow> founders_alts \<Rightarrow> rat
     \<Rightarrow> nat \<times> founders_alts \<times> rat" where
  "descent_loop n_ploidy haplotypes_m dosages_d_in n_founders ones founders_alts distance =
     (if ones < n_founders then
        (case descent_iteration n_ploidy haplotypes_m dosages_d_in founders_alts distance of
           Break alts' \<Rightarrow> (ones, alts', distance)
         | Commit min_i alts' min_distance \<Rightarrow>
             descent_loop n_ploidy haplotypes_m dosages_d_in n_founders (Suc ones)
               alts' min_distance)
      else (ones, founders_alts, distance))"
  by pat_completeness auto
termination
  by (relation "measure (\<lambda>(n_ploidy, haplotypes_m, dosages_d_in, n_founders, ones, founders_alts,
        distance). n_founders - ones)") auto

text \<open>
  \<^verbatim>\<open>descent_fitting::fit\<close>: the vector it is given is filled with zeros, the
  distance of the all-zero vector is the start, and the loop runs. The result is the
  founders vector as the call leaves it and the returned distance.
\<close>

definition descent_fitting_fit ::
  "nat \<Rightarrow> haplotypes_map \<Rightarrow> founders_alts \<Rightarrow> rat list \<Rightarrow> founders_alts \<times> rat" where
  "descent_fitting_fit n_ploidy haplotypes_m founders_alts dosages_d_in =
     (let alts = replicate (length founders_alts) 0;
          n_founders = length alts;
          dosages_d_zero =
            make_dosages_distribution n_ploidy (fill_samples_alts alts haplotypes_m);
          distance = l1_norm dosages_d_in dosages_d_zero
      in snd (descent_loop n_ploidy haplotypes_m dosages_d_in n_founders 0 alts distance))"

text \<open>
  The dosage distribution that a founders vector induces through the haplotypes map:
  the distribution of the view, as \<^verbatim>\<open>fit\<close> builds it after every change.
\<close>

definition induced_distribution :: "nat \<Rightarrow> haplotypes_map \<Rightarrow> founders_alts \<Rightarrow> nat list" where
  "induced_distribution n_ploidy haplotypes_m founders_alts =
     make_dosages_distribution n_ploidy (fill_samples_alts founders_alts haplotypes_m)"



subsection \<open>Errors\<close>

text \<open>
  What stops a run: the two SeqAn exceptions the program throws (\<^verbatim>\<open>main\<close> catches
  both), a failed \<^verbatim>\<open>SEQAN_ASSERT\<close> (the process aborts), and an operation whose
  behaviour C++ leaves undefined (\<^verbatim>\<open>back()\<close> or \<^verbatim>\<open>front()\<close> of an empty
  vector, a write past the end of an array).
\<close>

datatype error =
    IOError string
  | RuntimeError string
  | AssertionFailed string
  | Undefined string

subsection \<open>Reading the variant file\<close>

text \<open>
  A record of the input file as the SeqAn reader hands it over: contig id, position,
  the REF and ALT columns and one genotype column (a string) per sample.
\<close>

record vcf_record =
  rID :: nat
  beginPos :: nat
  ref :: string
  alt :: string
  genotypeInfos :: "string list"

record vcf_file =
  contigNames :: "string list"
  records :: "vcf_record list"

text \<open>
  \<^verbatim>\<open>read_genotype\<close>: the first field of the column, up to the first \<open>:\<close>, then
  every \<open>/\<close> and every \<open>|\<close> erased.
\<close>

definition read_genotype :: "string \<Rightarrow> string" where
  "read_genotype genotype_info =
     filter (\<lambda>c. c \<noteq> CHR ''|'')
       (filter (\<lambda>c. c \<noteq> CHR ''/'') (takeWhile (\<lambda>c. c \<noteq> CHR '':'') genotype_info))"

text \<open>\<^verbatim>\<open>get_ploidy\<close>: \<^verbatim>\<open>genotype.size()\<close>.\<close>

definition get_ploidy :: "'a list \<Rightarrow> nat" where
  "get_ploidy genotype = length genotype"

text \<open>
  \<^verbatim>\<open>is_unknown\<close>: \<^verbatim>\<open>genotype.back() == '.'\<close>. On an empty genotype
  \<^verbatim>\<open>back()\<close> is undefined; the caller below stops there.
\<close>

definition is_unknown :: "string \<Rightarrow> bool" where
  "is_unknown genotype = (last genotype = CHR ''.'')"

text \<open>
  The body of the loop over the samples of a record in \<^verbatim>\<open>read_vcf\<close>: the unknown
  check first (\<^verbatim>\<open>continue\<close>), then the ploidy check (\<^verbatim>\<open>throw\<close>), then the
  increment of the counter at the dosage of the character \<open>1\<close>.
\<close>

definition read_sample :: "nat \<Rightarrow> string \<Rightarrow> rat list \<Rightarrow> error + rat list" where
  "read_sample n_ploidy genotype_info dosages_d =
     (let genotype = read_genotype genotype_info
      in if genotype = [] then Inl (Undefined ''back() of an empty genotype'')
         else if is_unknown genotype then Inr dosages_d
         else if get_ploidy genotype \<noteq> n_ploidy
           then Inl (IOError ''Input ploidy does not match VCF genotypes'')
         else Inr (dosages_d[get_dosage genotype CHR ''1'' :=
                     dosages_d ! get_dosage genotype CHR ''1'' + 1]))"

fun read_samples :: "nat \<Rightarrow> string list \<Rightarrow> rat list \<Rightarrow> error + rat list" where
  "read_samples n_ploidy [] dosages_d = Inr dosages_d"
| "read_samples n_ploidy (genotype_info # rest) dosages_d =
     (case read_sample n_ploidy genotype_info dosages_d of
        Inl e \<Rightarrow> Inl e
      | Inr dosages_d' \<Rightarrow> read_samples n_ploidy rest dosages_d')"

text \<open>
  The ALT column is read up to the first comma; a record with something left after
  it is polyallelic and skipped before its genotypes are looked at.
\<close>

definition polyallelic :: "vcf_record \<Rightarrow> bool" where
  "polyallelic r = (dropWhile (\<lambda>c. c \<noteq> CHR '','') (alt r) \<noteq> [])"

record variants =
  positions :: "(nat \<times> nat) list"
  alleles :: "(string \<times> string) list"

text \<open>
  The \<^verbatim>\<open>while\<close> loop of \<^verbatim>\<open>read_vcf\<close> over the records, with the variants and the
  dosages read so far.
\<close>

fun read_records ::
  "nat \<Rightarrow> vcf_record list \<Rightarrow> variants \<Rightarrow> rat list list \<Rightarrow> error + variants \<times> rat list list" where
  "read_records n_ploidy [] vs dosages_v = Inr (vs, dosages_v)"
| "read_records n_ploidy (r # rs) vs dosages_v =
     (if polyallelic r then read_records n_ploidy rs vs dosages_v
      else
        (case read_samples n_ploidy (genotypeInfos r) (replicate (Suc n_ploidy) 0) of
           Inl e \<Rightarrow> Inl e
         | Inr dosages_d \<Rightarrow>
             read_records n_ploidy rs
               (vs\<lparr>positions := positions vs @ [(rID r, beginPos r)],
                   alleles := alleles vs @ [(ref r, takeWhile (\<lambda>c. c \<noteq> CHR '','') (alt r))]\<rparr>)
               (dosages_v @ [dosages_d])))"

definition read_vcf ::
  "nat \<Rightarrow> vcf_file \<Rightarrow> error + string list \<times> variants \<times> rat list list" where
  "read_vcf n_ploidy file =
     (case read_records n_ploidy (records file) \<lparr>positions = [], alleles = []\<rparr> [] of
        Inl e \<Rightarrow> Inl e
      | Inr (vs, dosages_v) \<Rightarrow> Inr (contigNames file, vs, dosages_v))"

text \<open>\<^verbatim>\<open>normalize_dosages_vector\<close>: every distribution of the vector.\<close>

definition normalize_dosages_vector :: "rat list list \<Rightarrow> nat \<Rightarrow> rat list list" where
  "normalize_dosages_vector dosages_v n_samples =
     map (\<lambda>dosages_d. normalize_dosages_distribution dosages_d n_samples) dosages_v"

text \<open>
  A known genotype whose number of alleles is not the configured ploidy: not empty,
  not ending in \<open>.\<close>, of another size.
\<close>

definition mismatch :: "nat \<Rightarrow> string \<Rightarrow> bool" where
  "mismatch n_ploidy genotype_info =
     (read_genotype genotype_info \<noteq> [] \<and> \<not> is_unknown (read_genotype genotype_info) \<and>
      get_ploidy (read_genotype genotype_info) \<noteq> n_ploidy)"

subsection \<open>Random numbers\<close>

text \<open>
  The generator (\<^verbatim>\<open>std::mt19937\<close>) is the stream of the raw numbers it has still to
  produce. \<^verbatim>\<open>std::uniform_int_distribution(a, b)\<close> maps the next raw number into
  the range from \<open>a\<close> to \<open>b\<close> and advances the generator. The theorems below
  hold for every stream, hence for every seed.
\<close>

type_synonym generator = "nat \<Rightarrow> nat"

definition uniform_int_distribution :: "nat \<Rightarrow> nat \<Rightarrow> generator \<Rightarrow> nat \<times> generator" where
  "uniform_int_distribution a b generator =
     (a + generator 0 mod (b - a + 1), \<lambda>i. generator (Suc i))"

text \<open>
  \<^verbatim>\<open>std::shuffle\<close>, as the standard library implements it: for every position
  \<open>i\<close> from 1 on, the element at \<open>i\<close> is swapped with the element at a
  position drawn between 0 and \<open>i\<close>. What is proved below uses only that the
  result is a rearrangement of the input.
\<close>

fun shuffle_steps :: "nat list \<Rightarrow> 'a list \<Rightarrow> generator \<Rightarrow> 'a list \<times> generator" where
  "shuffle_steps [] xs generator = (xs, generator)"
| "shuffle_steps (i # rest) xs generator =
     (case uniform_int_distribution 0 i generator of
        (j, generator') \<Rightarrow> shuffle_steps rest (xs[i := xs ! j, j := xs ! i]) generator')"

definition shuffle :: "'a list \<Rightarrow> generator \<Rightarrow> 'a list \<times> generator" where
  "shuffle xs generator = shuffle_steps [1..<length xs] xs generator"

subsection \<open>Founders distribution and haplotypes map\<close>

text \<open>Arithmetic of \<^verbatim>\<open>uint32_t\<close>: the result modulo \<open>2^32\<close>.\<close>

definition uint32 :: "nat \<Rightarrow> nat" where
  "uint32 n = n mod 2 ^ 32"

text \<open>\<^verbatim>\<open>std::vector::resize(n, v)\<close>.\<close>

definition resize :: "'a list \<Rightarrow> nat \<Rightarrow> 'a \<Rightarrow> 'a list" where
  "resize xs n v = take n xs @ replicate (n - length xs) v"

text \<open>
  The loop of \<^verbatim>\<open>simulate_founders_distribution\<close>: \<open>n_draws\<close> draws of a founder
  between 0 and \<open>n_founders - 1\<close>, each adding one to the multiplicity of the founder
  drawn.
\<close>

fun draw_founders :: "nat \<Rightarrow> nat \<Rightarrow> nat list \<Rightarrow> generator \<Rightarrow> nat list \<times> generator" where
  "draw_founders 0 n_founders founders_d generator = (founders_d, generator)"
| "draw_founders (Suc n_draws) n_founders founders_d generator =
     (case uniform_int_distribution 0 (uint32 (n_founders + 2 ^ 32 - 1)) generator of
        (f, generator') \<Rightarrow>
          draw_founders n_draws n_founders (founders_d[f := uint32 (founders_d ! f + 1)])
            generator')"

text \<open>
  The checks written with \<^verbatim>\<open>SEQAN_ASSERT\<close> are compiled in only when SeqAn's
  debug mode is on. The flag \<open>debug\<close> of the definitions below is that mode: with
  it a failed check ends the run, without it the check is absent and the code that
  follows it runs on.
\<close>

text \<open>
  \<^verbatim>\<open>simulate_founders_distribution\<close>. The two assertions come first; the product
  \<open>n_samples * n_ploidy\<close> and the number of draws are computed in \<^verbatim>\<open>uint32_t\<close>,
  so that the number of draws wraps around when \<open>n_founders\<close> is the larger. A draw
  into a vector of no founders is undefined.
\<close>

definition simulate_founders_distribution ::
  "bool \<Rightarrow> nat list \<Rightarrow> nat \<Rightarrow> nat \<Rightarrow> nat \<Rightarrow> generator
     \<Rightarrow> error + nat list \<times> generator" where
  "simulate_founders_distribution debug founders_d n_founders n_samples n_ploidy generator =
     (if debug \<and> \<not> n_samples > 0 then Inl (AssertionFailed ''n_samples > 0'')
      else if debug \<and> \<not> n_founders \<le> uint32 (n_samples * n_ploidy)
        then Inl (AssertionFailed ''n_founders <= n_samples * n_ploidy'')
      else if n_founders = 0
              \<and> 0 < uint32 (uint32 (n_samples * n_ploidy) + 2 ^ 32 - uint32 n_founders)
        then Inl (Undefined ''founders_d[f] of an empty founders_d'')
      else Inr (draw_founders
                  (uint32 (uint32 (n_samples * n_ploidy) + 2 ^ 32 - uint32 n_founders))
                  n_founders (resize founders_d n_founders 1) generator))"

text \<open>
  The map is stored row by row; \<open>reshape\<close> cuts the flat array of
  \<open>n_samples * n_ploidy\<close> entries into the rows \<open>[sample][haplotype]\<close>.
\<close>

definition reshape :: "nat \<Rightarrow> nat \<Rightarrow> 'a list \<Rightarrow> 'a list list" where
  "reshape n_samples n_ploidy flat =
     map (\<lambda>sample_id. take n_ploidy (drop (sample_id * n_ploidy) flat)) [0..<n_samples]"

text \<open>The \<^verbatim>\<open>std::fill_n\<close> calls: founder \<open>f\<close> written \<open>founders_d[f]\<close> times.\<close>

definition fill_founders :: "nat list \<Rightarrow> nat list" where
  "fill_founders founders_d =
     concat (map (\<lambda>f. replicate (founders_d ! f) f) [0..<length founders_d])"

text \<open>
  \<^verbatim>\<open>simulate_haplotypes_map\<close>: the assertion on the sum of the multiplicities (a
  \<^verbatim>\<open>uint32_t\<close> sum against a \<^verbatim>\<open>uint32_t\<close> product), the fill of the flat array
  of \<open>n_samples * n_ploidy\<close> entries that \<^verbatim>\<open>resize\<close> has set to 0, the assertion
  that the fill ended at the end of the array, and the shuffle. A fill that runs
  past the end of the array is undefined; a fill that ends before it leaves the
  entries that follow at 0. The array is taken to fit in memory.
\<close>

definition simulate_haplotypes_map ::
  "bool \<Rightarrow> nat list \<Rightarrow> nat \<Rightarrow> nat \<Rightarrow> generator
     \<Rightarrow> error + haplotypes_map \<times> generator" where
  "simulate_haplotypes_map debug founders_d n_samples n_ploidy generator =
     (if debug \<and> uint32 (sum_list founders_d) \<noteq> uint32 (n_samples * n_ploidy)
        then Inl (AssertionFailed ''sum of founders_d == n_samples * n_ploidy'')
      else if n_samples * n_ploidy < length (fill_founders founders_d)
        then Inl (Undefined ''fill_n past the end of the haplotypes map'')
      else if debug \<and> length (fill_founders founders_d) \<noteq> n_samples * n_ploidy
        then Inl (AssertionFailed ''haplotypes_m_it == haplotypes_m_end'')
      else
        (case shuffle (fill_founders founders_d
                         @ replicate (n_samples * n_ploidy - length (fill_founders founders_d)) 0)
                generator of
           (flat, generator') \<Rightarrow> Inr (reshape n_samples n_ploidy flat, generator')))"
subsection \<open>Exact fitting by mixed-integer programming\<close>

text \<open>
  \<^verbatim>\<open>mip_fitting\<close> builds a program for the LEMON solver and reads the solution
  back. The solver is not part of the repository: a solution is a value for every
  column (the real columns are rationals, the integer columns integers), the rows
  that \<^verbatim>\<open>init\<close> and \<^verbatim>\<open>fit\<close> add are predicates over a solution, and the solver
  is a parameter that returns a solution when its status is \<^verbatim>\<open>OPTIMAL\<close>.
\<close>

record mip_solution =
  sol_z :: "rat list"
  sol_dosages :: "int list"
  sol_errors :: "rat list list"
  sol_indicators :: "int list list"
  sol_alts :: "int list"

text \<open>
  The columns of \<^verbatim>\<open>init\<close> with their types and bounds: \<open>z\<close> real and at least
  0, the dosages integer and at least 0, the errors real and at least 0, the
  indicators integer and at least 0 (their upper bound is commented out), the
  founder alleles integer between 0 and 1.
\<close>

definition mip_columns :: "nat \<Rightarrow> nat \<Rightarrow> nat \<Rightarrow> mip_solution \<Rightarrow> bool" where
  "mip_columns n_ploidy n_samples n_founders sol =
     (length (sol_z sol) = Suc n_ploidy \<and> (\<forall>z\<in>set (sol_z sol). 0 \<le> z) \<and>
      length (sol_dosages sol) = Suc n_ploidy \<and> (\<forall>d\<in>set (sol_dosages sol). 0 \<le> d) \<and>
      length (sol_errors sol) = n_samples \<and>
      (\<forall>mip_sample\<in>set (sol_errors sol).
         length mip_sample = Suc n_ploidy \<and> (\<forall>e\<in>set mip_sample. 0 \<le> e)) \<and>
      length (sol_indicators sol) = n_samples \<and>
      (\<forall>mip_sample\<in>set (sol_indicators sol).
         length mip_sample = Suc n_ploidy \<and> (\<forall>i\<in>set mip_sample. 0 \<le> i)) \<and>
      length (sol_alts sol) = n_founders \<and> (\<forall>a\<in>set (sol_alts sol). 0 \<le> a \<and> a \<le> 1))"

text \<open>
  A haplotypes map that \<^verbatim>\<open>init\<close> can index: every sample has \<open>n_ploidy\<close>
  slots and every slot holds a founder below \<open>n_founders\<close>.
\<close>

definition haplotypes_map_ok :: "nat \<Rightarrow> nat \<Rightarrow> haplotypes_map \<Rightarrow> bool" where
  "haplotypes_map_ok n_ploidy n_founders haplotypes_m =
     (\<forall>row\<in>set haplotypes_m. length row = n_ploidy \<and> (\<forall>f\<in>set row. f < n_founders))"

text \<open>The expression \<^verbatim>\<open>sample_sum\<close>: the alleles of the founders of a sample.\<close>

definition sample_sum :: "nat \<Rightarrow> haplotypes_map \<Rightarrow> mip_solution \<Rightarrow> nat \<Rightarrow> int" where
  "sample_sum n_ploidy haplotypes_m sol sample_id =
     (\<Sum>haplotype_id\<leftarrow>[0..<n_ploidy]. sol_alts sol ! (haplotypes_m ! sample_id ! haplotype_id))"

text \<open>
  The rows of \<^verbatim>\<open>init\<close>, in the order of the code: \<open>d_p = \<Sum>_s i_s,p\<close>; then
  \<open>\<Sum>_p i_s,p = 1\<close>; then, per sample and dosage, the error at least
  \<open>dosage - sample_sum\<close>, at least \<open>sample_sum - dosage\<close>, and at most
  \<open>n_ploidy * (1 - indicator)\<close>.
\<close>

definition mip_init_rows :: "nat \<Rightarrow> haplotypes_map \<Rightarrow> mip_solution \<Rightarrow> bool" where
  "mip_init_rows n_ploidy haplotypes_m sol =
     ((\<forall>dosage\<in>set [0..<Suc n_ploidy].
         sol_dosages sol ! dosage =
           (\<Sum>sample_id\<leftarrow>[0..<length haplotypes_m]. sol_indicators sol ! sample_id ! dosage)) \<and>
      (\<forall>sample_id\<in>set [0..<length haplotypes_m].
         (\<Sum>dosage\<leftarrow>[0..<Suc n_ploidy]. sol_indicators sol ! sample_id ! dosage) = 1) \<and>
      (\<forall>sample_id\<in>set [0..<length haplotypes_m]. \<forall>dosage\<in>set [0..<Suc n_ploidy].
         of_int (int dosage - sample_sum n_ploidy haplotypes_m sol sample_id)
           \<le> sol_errors sol ! sample_id ! dosage \<and>
         of_int (sample_sum n_ploidy haplotypes_m sol sample_id - int dosage)
           \<le> sol_errors sol ! sample_id ! dosage \<and>
         sol_errors sol ! sample_id ! dosage
           \<le> of_nat n_ploidy * (1 - of_int (sol_indicators sol ! sample_id ! dosage))))"

text \<open>
  The two rows per dosage that \<^verbatim>\<open>fit\<close> adds for the target of the marker:
  \<open>d - d_obs \<le> z\<close> and \<open>d_obs - d \<le> z\<close>.
\<close>

definition mip_fit_rows :: "nat \<Rightarrow> rat list \<Rightarrow> mip_solution \<Rightarrow> bool" where
  "mip_fit_rows n_ploidy dosages_d_in sol =
     (\<forall>dosage\<in>set [0..<Suc n_ploidy].
        of_int (sol_dosages sol ! dosage) - dosages_d_in ! dosage \<le> sol_z sol ! dosage \<and>
        dosages_d_in ! dosage - of_int (sol_dosages sol ! dosage) \<le> sol_z sol ! dosage)"

definition mip_feasible ::
  "nat \<Rightarrow> haplotypes_map \<Rightarrow> nat \<Rightarrow> rat list \<Rightarrow> mip_solution \<Rightarrow> bool" where
  "mip_feasible n_ploidy haplotypes_m n_founders dosages_d_in sol =
     (mip_columns n_ploidy (length haplotypes_m) n_founders sol \<and>
      mip_init_rows n_ploidy haplotypes_m sol \<and>
      mip_fit_rows n_ploidy dosages_d_in sol)"

text \<open>The objective: minimize \<open>\<Sum> z\<close>.\<close>

definition mip_objective :: "mip_solution \<Rightarrow> rat" where
  "mip_objective sol = sum_list (sol_z sol)"

text \<open>What the status \<^verbatim>\<open>OPTIMAL\<close> of the solver means for the solution it holds.\<close>

definition mip_optimal ::
  "nat \<Rightarrow> haplotypes_map \<Rightarrow> nat \<Rightarrow> rat list \<Rightarrow> mip_solution \<Rightarrow> bool" where
  "mip_optimal n_ploidy haplotypes_m n_founders dosages_d_in sol =
     (mip_feasible n_ploidy haplotypes_m n_founders dosages_d_in sol \<and>
      (\<forall>sol'. mip_feasible n_ploidy haplotypes_m n_founders dosages_d_in sol' \<longrightarrow>
               mip_objective sol \<le> mip_objective sol'))"

type_synonym mip_solver =
  "nat \<Rightarrow> haplotypes_map \<Rightarrow> nat \<Rightarrow> rat list \<Rightarrow> mip_solution option"

text \<open>
  \<^verbatim>\<open>mip_fitting::fit\<close>: the solve, the assertion on the status, the distance (the
  value of the objective), the rounded dosages and the assertion that they sum to
  the number of samples, and the founder alleles copied from the solution over the
  first \<open>n_founders\<close> entries of the vector. The solver hands over a solution
  when its status is \<^verbatim>\<open>OPTIMAL\<close>; the values that the code reads from a program
  not solved to optimality, once the assertion is compiled out, are not defined.
\<close>

definition mip_fitting_fit ::
  "bool \<Rightarrow> mip_solver \<Rightarrow> nat \<Rightarrow> haplotypes_map \<Rightarrow> nat \<Rightarrow> founders_alts \<Rightarrow> rat list
     \<Rightarrow> error + founders_alts \<times> rat" where
  "mip_fitting_fit debug solve n_ploidy haplotypes_m n_founders founders_alts dosages_d_in =
     (case solve n_ploidy haplotypes_m n_founders dosages_d_in of
        None \<Rightarrow>
          (if debug then Inl (AssertionFailed ''mip.type() == OPTIMAL'')
           else Inl (Undefined ''solution of a program not solved to optimality''))
      | Some sol \<Rightarrow>
          (let distance = mip_objective sol;
               dosages_d_out = map nat (sol_dosages sol)
           in if debug \<and> sum_list dosages_d_out \<noteq> length haplotypes_m
                then Inl (AssertionFailed ''sum of dosages_d_out == haplotypes_m.size()'')
              else if length founders_alts < length (sol_alts sol)
                then Inl (Undefined ''transform past the end of founders_alts'')
              else Inr (map nat (sol_alts sol) @ drop (length (sol_alts sol)) founders_alts,
                        distance)))"
subsection \<open>The marker driver, the writer and the program\<close>

text \<open>
  \<^verbatim>\<open>fit_founders_alts_vector\<close>: the fitting of every marker in input order. The
  fitting strategy is the parameter \<open>fitting\<close>; the sum of the distances only
  goes to the log.
\<close>

fun fit_founders_alts_vector ::
  "(founders_alts \<Rightarrow> rat list \<Rightarrow> error + founders_alts \<times> rat) \<Rightarrow> founders_alts list
     \<Rightarrow> rat list list \<Rightarrow> error + founders_alts list" where
  "fit_founders_alts_vector fitting [] dosages_v = Inr []"
| "fit_founders_alts_vector fitting (founders_alts # rest) dosages_v =
     (case fitting founders_alts (hd dosages_v) of
        Inl e \<Rightarrow> Inl e
      | Inr (founders_alts', distance) \<Rightarrow>
          (case fit_founders_alts_vector fitting rest (tl dosages_v) of
             Inl e \<Rightarrow> Inl e
           | Inr rest' \<Rightarrow> Inr (founders_alts' # rest')))"

text \<open>
  What \<^verbatim>\<open>write_vcf\<close> hands to the writer: the contig names, the number of sample
  columns and, per marker, the position, the allele pair and the alleles of every
  sample in slot order (the genotype string joins them with \<open>|\<close>). The number of
  samples is read from the first marker: with no marker \<^verbatim>\<open>front()\<close> is undefined.
\<close>

record vcf_out =
  out_contigs :: "string list"
  out_samples :: nat
  out_records :: "((nat \<times> nat) \<times> (string \<times> string) \<times> nat list list) list"

definition write_vcf ::
  "string list \<Rightarrow> variants \<Rightarrow> nat list list list \<Rightarrow> error + vcf_out" where
  "write_vcf contig_names vs samples_alts_v =
     (if samples_alts_v = [] then Inl (Undefined ''front() of an empty samples_alts_v'')
      else Inr \<lparr>out_contigs = contig_names,
                out_samples = length (hd samples_alts_v),
                out_records =
                  map (\<lambda>marker_id. (positions vs ! marker_id, alleles vs ! marker_id,
                                     samples_alts_v ! marker_id))
                      [0..<length samples_alts_v]\<rparr>)"

text \<open>
  The fields of \<^verbatim>\<open>app_options\<close> that the run reads (the file names stay with
  the reader and the writer); each field carries the prefix \<open>opt\<close>.
\<close>

record app_options =
  opt_n_ploidy :: nat
  opt_n_founders :: nat
  opt_n_samples :: nat
  opt_n_markers :: nat
  opt_seed :: nat
  opt_mip :: bool

text \<open>
  \<^verbatim>\<open>run<n_ploidy>\<close>, in the order of the code: read, normalize, simulate the
  founders distribution, simulate the haplotypes map, allocate the all-zero founders
  vectors, fit every marker, write. The seeding of the generator and the solver are
  parameters, and so is the debug mode of the build.
\<close>

definition run ::
  "bool \<Rightarrow> (nat \<Rightarrow> generator) \<Rightarrow> mip_solver \<Rightarrow> nat \<Rightarrow> app_options \<Rightarrow> vcf_file
     \<Rightarrow> error + vcf_out" where
  "run debug mt19937 solve ploidy options file =
     (case read_vcf ploidy file of
        Inl e \<Rightarrow> Inl e
      | Inr (contig_names, vs, dosages_v) \<Rightarrow>
          (let dosages_v' = normalize_dosages_vector dosages_v (opt_n_samples options)
           in case simulate_founders_distribution debug [] (opt_n_founders options)
                     (opt_n_samples options) ploidy (mt19937 (opt_seed options)) of
                Inl e \<Rightarrow> Inl e
              | Inr (founders_d, generator) \<Rightarrow>
                  (case simulate_haplotypes_map debug founders_d (opt_n_samples options) ploidy
                          generator of
                     Inl e \<Rightarrow> Inl e
                   | Inr (haplotypes_m, generator') \<Rightarrow>
                       (let founders_alts_v =
                              replicate (length dosages_v') (replicate (opt_n_founders options) 0);
                            fitting =
                              (if opt_mip options
                               then mip_fitting_fit debug solve ploidy haplotypes_m
                                      (opt_n_founders options)
                               else (\<lambda>founders_alts dosages_d.
                                       Inr (descent_fitting_fit ploidy haplotypes_m
                                              founders_alts dosages_d)))
                        in case fit_founders_alts_vector fitting founders_alts_v dosages_v' of
                             Inl e \<Rightarrow> Inl e
                           | Inr founders_alts_v' \<Rightarrow>
                               write_vcf contig_names vs
                                 (map (\<lambda>founders_alts.
                                         fill_samples_alts founders_alts haplotypes_m)
                                      founders_alts_v')))))"

text \<open>
  How the process ends: \<^verbatim>\<open>main\<close> returns a status, with or without an output
  file written; or a failed assertion aborts it (\<^verbatim>\<open>SEQAN_ASSERT\<close> ends in
  \<^verbatim>\<open>abort()\<close>, which no \<^verbatim>\<open>catch\<close> sees); or its behaviour is undefined.
\<close>

datatype outcome =
    Returned int "vcf_out option"
  | Aborted string
  | Unspecified string

text \<open>
  What an error does to the process: the exceptions are caught in \<^verbatim>\<open>main\<close>,
  reported and turned into the status 1, with no output file written.
\<close>

definition outcome_of :: "error \<Rightarrow> outcome" where
  "outcome_of e =
     (case e of
        IOError msg \<Rightarrow> Returned 1 None
      | RuntimeError msg \<Rightarrow> Returned 1 None
      | AssertionFailed msg \<Rightarrow> Aborted msg
      | Undefined msg \<Rightarrow> Unspecified msg)"

text \<open>
  \<^verbatim>\<open>main\<close> after the arguments are parsed: the \<^verbatim>\<open>switch\<close> over the ploidy
  (2 to 8, anything else throws), the \<^verbatim>\<open>catch\<close>, the status 0 otherwise.
\<close>

definition main ::
  "bool \<Rightarrow> (nat \<Rightarrow> generator) \<Rightarrow> mip_solver \<Rightarrow> app_options \<Rightarrow> vcf_file \<Rightarrow> outcome" where
  "main debug mt19937 solve options file =
     (case (if opt_n_ploidy options \<in> set [2..<9]
            then run debug mt19937 solve (opt_n_ploidy options) options file
            else Inl (RuntimeError ''Unsupported ploidy'')) of
        Inr out \<Rightarrow> Returned 0 (Some out)
      | Inl e \<Rightarrow> outcome_of e)"

subsection \<open>Example inputs\<close>

text \<open>
  A file of one marker with a diploid and a triploid genotype; a file of one marker
  with two diploid genotypes; a file of one sample whose first marker has two
  alternative alleles and a triploid genotype and whose second marker is diploid;
  and two configurations of ploidy 2: one founder for one sample, and six founders
  for two samples.
\<close>

definition triploid_file :: vcf_file where
  "triploid_file =
     \<lparr>contigNames = [''chr1''],
      records = [\<lparr>rID = 0, beginPos = 10, ref = ''A'', alt = ''C'',
                  genotypeInfos = [''0/1'', ''0/1/1'']\<rparr>]\<rparr>"

definition diploid_file :: vcf_file where
  "diploid_file =
     \<lparr>contigNames = [''chr1''],
      records = [\<lparr>rID = 0, beginPos = 10, ref = ''A'', alt = ''C'',
                  genotypeInfos = [''0/1'', ''1|1'']\<rparr>]\<rparr>"

definition polyallelic_file :: vcf_file where
  "polyallelic_file =
     \<lparr>contigNames = [''chr1''],
      records = [\<lparr>rID = 0, beginPos = 10, ref = ''A'', alt = ''C,T'',
                  genotypeInfos = [''0/1/1'']\<rparr>,
                 \<lparr>rID = 0, beginPos = 12, ref = ''G'', alt = ''T'',
                  genotypeInfos = [''0/1'']\<rparr>]\<rparr>"

definition one_founder :: app_options where
  "one_founder =
     \<lparr>opt_n_ploidy = 2, opt_n_founders = 1, opt_n_samples = 1, opt_n_markers = 1,
      opt_seed = 0, opt_mip = False\<rparr>"

definition six_founders :: app_options where
  "six_founders =
     \<lparr>opt_n_ploidy = 2, opt_n_founders = 6, opt_n_samples = 2, opt_n_markers = 1,
      opt_seed = 0, opt_mip = False\<rparr>"

text \<open>
  Three solutions: for two samples that each hold one founder twice and the target
  \<open>[1, 0, 1]\<close>; for one sample over two founders and the target
  \<open>[1/2, 1/2, 0]\<close>; for two samples over four founders and the target
  \<open>[1, 0, 1]\<close>.
\<close>

definition two_pairs_solution :: mip_solution where
  "two_pairs_solution =
     \<lparr>sol_z = [0, 0, 0], sol_dosages = [1, 0, 1],
      sol_errors = [[0, 1, 2], [2, 1, 0]], sol_indicators = [[1, 0, 0], [0, 0, 1]],
      sol_alts = [0, 1]\<rparr>"

definition half_solution :: mip_solution where
  "half_solution =
     \<lparr>sol_z = [1 / 2, 1 / 2, 0], sol_dosages = [0, 1, 0],
      sol_errors = [[1, 0, 1]], sol_indicators = [[0, 1, 0]],
      sol_alts = [1, 0]\<rparr>"

definition four_slots_solution :: mip_solution where
  "four_slots_solution =
     \<lparr>sol_z = [0, 0, 0], sol_dosages = [1, 0, 1],
      sol_errors = [[0, 1, 2], [2, 1, 0]], sol_indicators = [[1, 0, 0], [0, 0, 1]],
      sol_alts = [0, 0, 1, 1]\<rparr>"

section \<open>Properties of the greedy descent fitting\<close>

declare descent_loop.simps [simp del]














lemma count_list_all:
  "count_list xs v = length xs \<Longrightarrow> x \<in> set xs \<Longrightarrow> x = v"
proof (induction xs)
  case Nil
  then show ?case by simp
next
  case (Cons y xs)
  have le: "count_list xs v \<le> length xs" by (rule count_le_length)
  show ?case
  proof (cases "y = v")
    case True
    then show ?thesis using Cons by auto
  next
    case False
    then show ?thesis using Cons.prems le by simp
  qed
qed








text \<open>
  The targets that \<^verbatim>\<open>run\<close> passes to the fitting are normalized to the number
  of samples, a \<^verbatim>\<open>uint32_t\<close>: their distances stay far below the largest float.
\<close>

lemma normalized_target_in_range:
  assumes "\<forall>x\<in>set dosages_d_in. 0 \<le> x"
    and "sum_list dosages_d_in = of_nat (length haplotypes_m)"
    and "length (haplotypes_m :: haplotypes_map) < 2 ^ 32"
  shows "(\<Sum>x\<leftarrow>dosages_d_in. \<bar>x\<bar>) + of_nat (length haplotypes_m) < float_max"
proof -
  have "map abs dosages_d_in = dosages_d_in"
    using assms(1) by (induction dosages_d_in) simp_all
  then have s: "(\<Sum>x\<leftarrow>dosages_d_in. \<bar>x\<bar>) = of_nat (length haplotypes_m)"
    using assms(2) by simp
  have n: "(of_nat (length haplotypes_m) :: rat) < 2 ^ 32" using assms(3) by simp
  have "(2 ^ 32 + 2 ^ 32 :: rat) < float_max" by (simp add: float_max_def)
  with n show ?thesis unfolding s by linarith
qed

section \<open>Claims about the greedy descent fitting\<close>

subsection \<open>Never worse than the all-zero vector\<close>


subsection \<open>The stop rule\<close>




subsection \<open>Commits\<close>




subsection \<open>The input vector\<close>

text \<open>
  Claim C9. The fit overwrites the vector it is given with zeros, so two vectors of
  the same length give the same final vector and the same distance.
\<close>

theorem descent_fit_ignores_input:
  assumes "length founders_alts = length founders_alts'"
  shows "descent_fitting_fit n_ploidy haplotypes_m founders_alts dosages_d_in =
         descent_fitting_fit n_ploidy haplotypes_m founders_alts' dosages_d_in"
  using assms by (simp add: descent_fitting_fit_def)

text \<open>The vectors \<open>[5, 9]\<close> and \<open>[1, 0]\<close> give the same fit.\<close>

theorem descent_fit_ignores_input_witness:
  "length [5, 9 :: nat] = length [1, 0 :: nat] \<and>
   descent_fitting_fit 2 [[0, 0], [1, 1]] [5, 9] [1, 0, 1] =
   descent_fitting_fit 2 [[0, 0], [1, 1]] [1, 0] [1, 0, 1] \<and>
   descent_fitting_fit 2 [[0, 0], [1, 1]] [5, 9] [1, 0, 1] = ([1, 0], 0)"
proof -
  have h: "length [5, 9 :: nat] = length [1, 0 :: nat]" by simp
  have e: "descent_fitting_fit 2 [[0, 0], [1, 1]] [5, 9] [1, 0, 1] = ([1, 0], 0)"
    by code_simp
  show ?thesis
    using h e descent_fit_ignores_input[OF h, of 2 "[[0, 0], [1, 1]]" "[1, 0, 1]"] by simp
qed

section \<open>Normalization\<close>

lemma sum_list_normalize:
  assumes "sum_list dosages_d \<noteq> 0"
  shows "sum_list (normalize_dosages_distribution dosages_d n) = of_nat n"
proof -
  have "(\<Sum>d\<leftarrow>dosages_d. of_nat n * d / sum_list dosages_d)
          = (\<Sum>d\<leftarrow>dosages_d. (of_nat n / sum_list dosages_d) * d)"
    by (simp add: field_simps)
  also have "\<dots> = (of_nat n / sum_list dosages_d) * sum_list dosages_d"
    by (simp only: sum_list_const_mult) simp
  also have "\<dots> = of_nat n" using assms by simp
  finally show ?thesis by (simp add: normalize_dosages_distribution_def)
qed

lemma normalize_normalized:
  assumes "sum_list dosages_d = of_nat n" "0 < sum_list dosages_d"
  shows "normalize_dosages_distribution dosages_d n = dosages_d"
proof -
  have "of_nat n * d / sum_list dosages_d = d" for d :: rat
    using assms by simp
  then show ?thesis by (simp add: normalize_dosages_distribution_def)
qed

text \<open>
  Claim C8. For a distribution whose entries have a positive sum, normalization
  multiplies every entry by \<open>n_samples / sum\<close>, the entries sum to
  \<open>n_samples\<close> afterwards, a distribution that already sums to \<open>n_samples\<close> is
  left as it is, and normalizing twice to the same positive count is normalizing
  once. The floats are rationals here, so the equalities are exact.
\<close>

theorem normalize_rescales:
  assumes "0 < sum_list dosages_d"
  shows "normalize_dosages_distribution dosages_d n =
           map (\<lambda>d. d * (of_nat n / sum_list dosages_d)) dosages_d \<and>
         sum_list (normalize_dosages_distribution dosages_d n) = of_nat n \<and>
         (sum_list dosages_d = of_nat n \<longrightarrow>
            normalize_dosages_distribution dosages_d n = dosages_d) \<and>
         (0 < n \<longrightarrow>
            normalize_dosages_distribution (normalize_dosages_distribution dosages_d n) n =
              normalize_dosages_distribution dosages_d n)"
proof (intro conjI impI)
  show "normalize_dosages_distribution dosages_d n =
           map (\<lambda>d. d * (of_nat n / sum_list dosages_d)) dosages_d"
    by (simp add: normalize_dosages_distribution_def field_simps)
  show s: "sum_list (normalize_dosages_distribution dosages_d n) = of_nat n"
    using assms by (simp add: sum_list_normalize)
  show "normalize_dosages_distribution dosages_d n = dosages_d"
    if "sum_list dosages_d = of_nat n"
    using that assms by (rule normalize_normalized)
  show "normalize_dosages_distribution (normalize_dosages_distribution dosages_d n) n =
              normalize_dosages_distribution dosages_d n" if "0 < n"
  proof (rule normalize_normalized)
    show "sum_list (normalize_dosages_distribution dosages_d n) = of_nat n" by (rule s)
    show "0 < sum_list (normalize_dosages_distribution dosages_d n)" using s that by simp
  qed
qed

text \<open>The counts \<open>[3, 1, 0]\<close> of four samples, normalized to two samples.\<close>

theorem normalize_rescales_witness:
  "0 < sum_list [3, 1, 0 :: rat] \<and>
   normalize_dosages_distribution [3, 1, 0] 2 = [3 / 2, 1 / 2, 0] \<and>
   sum_list (normalize_dosages_distribution [3, 1, 0] 2) = of_nat 2 \<and>
   normalize_dosages_distribution (normalize_dosages_distribution [3, 1, 0] 2) 2 =
     normalize_dosages_distribution [3, 1, 0] 2"
proof -
  have h: "0 < sum_list [3, 1, 0 :: rat]" by simp
  have e: "normalize_dosages_distribution [3, 1, 0] 2 = [3 / 2, 1 / 2, 0]"
    by (simp add: normalize_dosages_distribution_def)
  have p: "0 < (2::nat)" by simp
  note c = normalize_rescales[OF h, of 2]
  from c have s: "sum_list (normalize_dosages_distribution [3, 1, 0] 2) = of_nat 2" by blast
  from c p have i: "normalize_dosages_distribution (normalize_dosages_distribution [3, 1, 0] 2) 2 =
     normalize_dosages_distribution [3, 1, 0] 2" by blast
  show ?thesis by (rule conjI, rule h, rule conjI, rule e, rule conjI, rule s, rule i)
qed

section \<open>Loading the variant file\<close>

text \<open>
  Claim C10. A genotype is unknown when its last allele character is \<open>.\<close>,
  whatever comes before it; the unknown check comes before the ploidy check, so a
  genotype ending in \<open>.\<close> is skipped with the counters unchanged and no error,
  whatever its number of alleles; a genotype that ends in anything else is known,
  checked against the ploidy and counted, whatever comes before its last character;
  so \<open>./1\<close> is known and counted under ploidy 2, at dosage 1.
\<close>

theorem unknown_checked_first:
  "(\<forall>genotype c. is_unknown (genotype @ [c]) \<longleftrightarrow> c = CHR ''.'') \<and>
   (\<forall>genotype. read_genotype genotype_info = genotype @ [CHR ''.''] \<longrightarrow>
      read_sample n_ploidy genotype_info dosages_d = Inr dosages_d) \<and>
   (\<forall>genotype c. read_genotype genotype_info = genotype @ [c] \<and> c \<noteq> CHR ''.'' \<longrightarrow>
      read_sample n_ploidy genotype_info dosages_d =
        (if Suc (length genotype) \<noteq> n_ploidy
         then Inl (IOError ''Input ploidy does not match VCF genotypes'')
         else Inr (dosages_d[count_list (genotype @ [c]) CHR ''1'' :=
                     dosages_d ! count_list (genotype @ [c]) CHR ''1'' + 1]))) \<and>
   (\<forall>d0 d1 d2. read_sample 2 ''./1'' [d0, d1, d2] = Inr [d0, d1 + 1, d2])"
  by (simp add: is_unknown_def read_sample_def read_genotype_def get_ploidy_def get_dosage_def)

text \<open>Three alleles ending in \<open>.\<close> under ploidy 2: skipped, no error.\<close>

theorem unknown_checked_first_witness:
  "read_genotype ''0/1/.:17'' = ''01'' @ [CHR ''.''] \<and>
   get_ploidy (read_genotype ''0/1/.:17'') \<noteq> 2 \<and>
   read_sample 2 ''0/1/.:17'' [4, 5, 6] = Inr [4, 5, 6]"
proof -
  have h: "read_genotype ''0/1/.:17'' = ''01'' @ [CHR ''.'']"
    by (simp add: read_genotype_def)
  have p: "get_ploidy (read_genotype ''0/1/.:17'') \<noteq> 2"
    by (simp add: read_genotype_def get_ploidy_def)
  from unknown_checked_first[of "''0/1/.:17''" 2 "[4, 5, 6]"] h
  have s: "read_sample 2 ''0/1/.:17'' [4, 5, 6] = Inr [4, 5, 6]" by blast
  show ?thesis by (rule conjI, rule h, rule conjI, rule p, rule s)
qed

lemma read_sample_cases:
  assumes "read_genotype genotype_info \<noteq> []"
  shows "(mismatch n_ploidy genotype_info \<and>
            read_sample n_ploidy genotype_info dosages_d =
              Inl (IOError ''Input ploidy does not match VCF genotypes'')) \<or>
         (\<not> mismatch n_ploidy genotype_info \<and>
            (\<exists>dosages_d'. read_sample n_ploidy genotype_info dosages_d = Inr dosages_d'))"
  using assms by (simp add: read_sample_def mismatch_def Let_def)

lemma read_samples_cases:
  assumes "\<forall>g\<in>set genotype_infos. read_genotype g \<noteq> []"
  shows "((\<exists>g\<in>set genotype_infos. mismatch n_ploidy g) \<and>
            read_samples n_ploidy genotype_infos dosages_d =
              Inl (IOError ''Input ploidy does not match VCF genotypes'')) \<or>
         (\<not> (\<exists>g\<in>set genotype_infos. mismatch n_ploidy g) \<and>
            (\<exists>dosages_d'. read_samples n_ploidy genotype_infos dosages_d = Inr dosages_d'))"
  using assms
proof (induction genotype_infos arbitrary: dosages_d)
  case Nil
  then show ?case by simp
next
  case (Cons g rest)
  have ne: "read_genotype g \<noteq> []" using Cons.prems by simp
  have rest: "\<forall>g\<in>set rest. read_genotype g \<noteq> []" using Cons.prems by simp
  show ?case
  proof (cases "mismatch n_ploidy g")
    case True
    then have "read_sample n_ploidy g dosages_d =
                 Inl (IOError ''Input ploidy does not match VCF genotypes'')"
      using read_sample_cases[OF ne, of n_ploidy dosages_d] by blast
    then show ?thesis using True by simp
  next
    case False
    then obtain d' where d': "read_sample n_ploidy g dosages_d = Inr d'"
      using read_sample_cases[OF ne, of n_ploidy dosages_d] by blast
    show ?thesis using Cons.IH[OF rest, of d'] False d' by simp
  qed
qed

text \<open>
  The first known genotype of another size ends the reading of its marker, and the
  marker ends the reading of the file: what comes after them is not looked at.
\<close>

lemma read_samples_mismatch:
  assumes "\<forall>g\<in>set left. read_genotype g \<noteq> []"
    and "mismatch n_ploidy genotype_info"
  shows "read_samples n_ploidy (left @ genotype_info # right) dosages_d =
           Inl (IOError ''Input ploidy does not match VCF genotypes'')"
  using assms(1)
proof (induction left arbitrary: dosages_d)
  case Nil
  have "read_sample n_ploidy genotype_info dosages_d =
          Inl (IOError ''Input ploidy does not match VCF genotypes'')"
    using assms(2) by (simp add: read_sample_def mismatch_def Let_def)
  then show ?case by simp
next
  case (Cons g rest)
  have ne: "read_genotype g \<noteq> []" using Cons.prems by simp
  have rest: "\<forall>g\<in>set rest. read_genotype g \<noteq> []" using Cons.prems by simp
  show ?case
  proof (cases "mismatch n_ploidy g")
    case True
    then have "read_sample n_ploidy g dosages_d =
                 Inl (IOError ''Input ploidy does not match VCF genotypes'')"
      using read_sample_cases[OF ne, of n_ploidy dosages_d] by blast
    then show ?thesis by simp
  next
    case False
    then obtain d' where d': "read_sample n_ploidy g dosages_d = Inr d'"
      using read_sample_cases[OF ne, of n_ploidy dosages_d] by blast
    show ?thesis using Cons.IH[OF rest, of d'] d' by simp
  qed
qed

lemma read_records_mismatch:
  assumes "\<forall>r'\<in>set earlier. \<not> polyallelic r' \<longrightarrow>
             (\<forall>g\<in>set (genotypeInfos r'). read_genotype g \<noteq> [])"
    and "\<not> polyallelic r"
    and "read_samples n_ploidy (genotypeInfos r) (replicate (Suc n_ploidy) 0) =
           Inl (IOError ''Input ploidy does not match VCF genotypes'')"
  shows "read_records n_ploidy (earlier @ r # later) vs dosages_v =
           Inl (IOError ''Input ploidy does not match VCF genotypes'')"
  using assms(1)
proof (induction earlier arbitrary: vs dosages_v)
  case Nil
  then show ?case using assms(2,3) by simp
next
  case (Cons r' rs)
  have rest: "\<forall>r'\<in>set rs. \<not> polyallelic r' \<longrightarrow>
                (\<forall>g\<in>set (genotypeInfos r'). read_genotype g \<noteq> [])"
    using Cons.prems by simp
  show ?case
  proof (cases "polyallelic r'")
    case True
    then show ?thesis using Cons.IH[OF rest] by simp
  next
    case False
    then have ne: "\<forall>g\<in>set (genotypeInfos r'). read_genotype g \<noteq> []"
      using Cons.prems by simp
    show ?thesis
    proof (cases "\<exists>g\<in>set (genotypeInfos r'). mismatch n_ploidy g")
      case True
      then have "read_samples n_ploidy (genotypeInfos r') (replicate (Suc n_ploidy) 0) =
              Inl (IOError ''Input ploidy does not match VCF genotypes'')"
        using read_samples_cases[OF ne, of n_ploidy "replicate (Suc n_ploidy) 0"] by blast
      then show ?thesis using False by simp
    next
      case nomis: False
      then obtain d' where d': "read_samples n_ploidy (genotypeInfos r')
                                  (replicate (Suc n_ploidy) 0) = Inr d'"
        using read_samples_cases[OF ne, of n_ploidy "replicate (Suc n_ploidy) 0"] by blast
      show ?thesis using Cons.IH[OF rest] False d' by simp
    qed
  qed
qed
section \<open>Simulation of the haplotypes map\<close>

lemma uniform_int_distribution_le:
  "fst (uniform_int_distribution 0 b generator) \<le> b"
  by (simp add: uniform_int_distribution_def)

lemma shuffle_steps_mset:
  assumes "\<forall>i\<in>set steps. i < length xs"
  shows "mset (fst (shuffle_steps steps xs generator)) = mset xs"
  using assms
proof (induction steps arbitrary: xs generator)
  case Nil
  then show ?case by simp
next
  case (Cons i rest)
  obtain j g' where d: "uniform_int_distribution 0 i generator = (j, g')"
    by (cases "uniform_int_distribution 0 i generator") auto
  have "j \<le> i" using uniform_int_distribution_le[of i generator] d by simp
  moreover have i: "i < length xs" using Cons.prems by simp
  ultimately have j: "j < length xs" by simp
  have sw: "mset (xs[i := xs ! j, j := xs ! i]) = mset xs"
    using mset_swap[OF j i] by simp
  have "\<forall>k\<in>set rest. k < length (xs[i := xs ! j, j := xs ! i])"
    using Cons.prems by simp
  from Cons.IH[OF this, of g'] sw d show ?case by simp
qed

lemma shuffle_mset: "mset (fst (shuffle xs generator)) = mset xs"
  unfolding shuffle_def by (rule shuffle_steps_mset) simp

lemma concat_reshape: "concat (reshape n_samples n_ploidy flat) = take (n_samples * n_ploidy) flat"
proof (induction n_samples)
  case 0
  then show ?case by (simp add: reshape_def)
next
  case (Suc n)
  have "concat (reshape (Suc n) n_ploidy flat) =
          concat (reshape n n_ploidy flat) @ take n_ploidy (drop (n * n_ploidy) flat)"
    by (simp add: reshape_def)
  also have "\<dots> = take (n * n_ploidy) flat @ take n_ploidy (drop (n * n_ploidy) flat)"
    by (simp only: Suc.IH)
  also have "\<dots> = take (n * n_ploidy + n_ploidy) flat"
    by (simp only: take_add)
  finally show ?case by (simp add: add.commute)
qed

lemma reshape_rows:
  assumes "length flat = n_samples * n_ploidy" "row \<in> set (reshape n_samples n_ploidy flat)"
  shows "length row = n_ploidy"
proof -
  from assms(2) obtain s where s: "s < n_samples"
    and row: "row = take n_ploidy (drop (s * n_ploidy) flat)"
    by (auto simp: reshape_def)
  have "Suc s * n_ploidy \<le> n_samples * n_ploidy"
    using s by (intro mult_le_mono1) simp
  then have "n_ploidy \<le> length flat - s * n_ploidy" using assms(1) by simp
  then show ?thesis by (simp add: row)
qed

lemma length_fill:
  "length (concat (map (\<lambda>f. replicate (g f) f) js)) = (\<Sum>f\<leftarrow>js. g f)"
  by (induction js) simp_all

lemma count_fill:
  assumes "distinct js"
  shows "count_list (concat (map (\<lambda>f. replicate (g f) f) js)) k = (if k \<in> set js then g k else 0)"
  using assms
proof (induction js)
  case Nil
  then show ?case by simp
next
  case (Cons j js)
  have c: "count_list (replicate n j) k = (if k = j then n else 0)" for n :: nat
    by (induction n) (simp_all split: if_splits)
  show ?case using Cons by (auto simp: c)
qed

lemma length_fill_founders: "length (fill_founders founders_d) = sum_list founders_d"
proof -
  have "(\<Sum>f\<leftarrow>[0..<length founders_d]. founders_d ! f) = sum_list founders_d"
    by (simp add: map_nth)
  then show ?thesis by (simp add: fill_founders_def length_fill)
qed

lemma count_fill_founders:
  "count_list (fill_founders founders_d) f = (if f < length founders_d then founders_d ! f else 0)"
  unfolding fill_founders_def using count_fill[of "[0..<length founders_d]" "\<lambda>f. founders_d ! f" f]
  by simp

lemma length_le_sum_list:
  assumes "\<forall>x\<in>set xs. (1::nat) \<le> x"
  shows "length xs \<le> sum_list xs"
  using assms by (induction xs) auto

lemma nth_le_sum_list_ones:
  assumes "\<forall>x\<in>set xs. (1::nat) \<le> x" and "f < length xs"
  shows "xs ! f + length xs \<le> sum_list xs + 1"
  using assms
proof (induction xs arbitrary: f)
  case Nil
  then show ?case by simp
next
  case (Cons x xs)
  have rest: "\<forall>x\<in>set xs. 1 \<le> x" using Cons.prems(1) by simp
  have x: "1 \<le> x" using Cons.prems(1) by simp
  show ?case
  proof (cases f)
    case 0
    then show ?thesis using length_le_sum_list[OF rest] by simp
  next
    case (Suc f')
    then have "f' < length xs" using Cons.prems(2) by simp
    from Cons.IH[OF rest this] x Suc show ?thesis by simp
  qed
qed

text \<open>
  The draws keep every multiplicity at 1 or more, and none of them wraps around as
  long as the \<open>n_founders - 1\<close> other founders leave less than \<open>2^32\<close> to the
  founder drawn: then the sum grows by one per draw.
\<close>

lemma draw_founders_spec:
  assumes "length founders_d = n_founders" "1 \<le> n_founders" "n_founders < 2 ^ 32"
    and "sum_list founders_d + n_draws + 1 < 2 ^ 32 + n_founders"
    and "\<forall>f<n_founders. 1 \<le> founders_d ! f"
  shows "length (fst (draw_founders n_draws n_founders founders_d generator)) = n_founders \<and>
         sum_list (fst (draw_founders n_draws n_founders founders_d generator)) =
           sum_list founders_d + n_draws \<and>
         (\<forall>f<n_founders. 1 \<le> fst (draw_founders n_draws n_founders founders_d generator) ! f)"
  using assms
proof (induction n_draws arbitrary: founders_d generator)
  case 0
  then show ?case by simp
next
  case (Suc n_draws)
  have b: "uint32 (n_founders + 2 ^ 32 - 1) = n_founders - 1"
  proof -
    have "n_founders + 2 ^ 32 - 1 = (n_founders - 1) + 1 * 2 ^ 32" using Suc.prems(2) by simp
    then have "(n_founders + 2 ^ 32 - 1) mod 2 ^ 32 = (n_founders - 1) mod 2 ^ 32"
      by (simp only: mod_mult_self1)
    also have "\<dots> = n_founders - 1" using Suc.prems(3) by simp
    finally show ?thesis by (simp add: uint32_def)
  qed
  obtain f g' where d: "uniform_int_distribution 0 (n_founders - 1) generator = (f, g')"
    by (cases "uniform_int_distribution 0 (n_founders - 1) generator") auto
  have "f \<le> n_founders - 1" using uniform_int_distribution_le[of "n_founders - 1" generator] d by simp
  then have f: "f < length founders_d" using Suc.prems(1,2) by simp
  have le: "founders_d ! f \<le> sum_list founders_d"
    using f by (simp add: member_le_sum_list)
  have ones: "\<forall>x\<in>set founders_d. 1 \<le> x"
    using Suc.prems(1,5) by (simp add: all_set_conv_all_nth)
  have "founders_d ! f + n_founders \<le> sum_list founders_d + 1"
    using nth_le_sum_list_ones[OF ones f] Suc.prems(1) by simp
  then have small: "founders_d ! f + 1 < 2 ^ 32" using Suc.prems(4) by simp
  then have u: "uint32 (founders_d ! f + 1) = founders_d ! f + 1" by (simp add: uint32_def)
  define fd' where "fd' = founders_d[f := founders_d ! f + 1]"
  have l: "length fd' = n_founders" using Suc.prems(1) by (simp add: fd'_def)
  have s: "sum_list fd' = sum_list founders_d + 1"
    using f le by (simp add: fd'_def sum_list_update)
  have s': "sum_list fd' + n_draws + 1 < 2 ^ 32 + n_founders" using s Suc.prems(4) by simp
  have p: "\<forall>k<n_founders. 1 \<le> fd' ! k"
  proof (intro allI impI)
    fix k assume k: "k < n_founders"
    show "1 \<le> fd' ! k"
    proof (cases "k = f")
      case True
      then show ?thesis using f by (simp add: fd'_def)
    next
      case False
      then show ?thesis using Suc.prems(5) k by (simp add: fd'_def)
    qed
  qed
  have step: "draw_founders (Suc n_draws) n_founders founders_d generator =
                draw_founders n_draws n_founders fd' g'"
    by (simp only: draw_founders.simps b d prod.case u fd'_def)
  from Suc.IH[OF l Suc.prems(2,3) s' p, of g'] s show ?case
    by (simp only: step) simp
qed

text \<open>With a single founder every draw falls on it.\<close>

lemma draw_founders_single:
  assumes "v < 2 ^ 32"
  shows "fst (draw_founders n_draws 1 [v] generator) = [uint32 (v + n_draws)]"
  using assms
proof (induction n_draws arbitrary: v generator)
  case 0
  then show ?case by (simp add: uint32_def)
next
  case (Suc n_draws)
  have b: "uint32 (1 + 2 ^ 32 - 1) = 0" by (simp add: uint32_def)
  have d: "uniform_int_distribution 0 0 generator = (0, \<lambda>i. generator (Suc i))"
    by (simp add: uniform_int_distribution_def)
  have step: "draw_founders (Suc n_draws) 1 [v] generator =
                draw_founders n_draws 1 [uint32 (v + 1)] (\<lambda>i. generator (Suc i))"
    by (simp only: draw_founders.simps b d prod.case nth_Cons_0 list_update_code)
  have lt: "uint32 (v + 1) < 2 ^ 32" by (simp add: uint32_def)
  have "uint32 (uint32 (v + 1) + n_draws) = uint32 (v + Suc n_draws)"
    by (simp add: uint32_def mod_add_left_eq)
  then show ?case by (simp only: step Suc.IH[OF lt])
qed

text \<open>
  The number of draws, \<open>n_samples * n_ploidy - n_founders\<close> in \<^verbatim>\<open>uint32_t\<close>: the
  difference when \<open>n_founders\<close> is not the larger, and \<open>2^32\<close> less the excess
  when it is.
\<close>

lemma n_draws_difference:
  assumes "n_founders \<le> product" and "product < 2 ^ 32"
  shows "uint32 (uint32 product + 2 ^ 32 - uint32 n_founders) = product - n_founders"
proof -
  have "product + 2 ^ 32 - n_founders = (product - n_founders) + 1 * 2 ^ 32"
    using assms(1) by simp
  then have "(product + 2 ^ 32 - n_founders) mod 2 ^ 32 = (product - n_founders) mod 2 ^ 32"
    by (simp only: mod_mult_self1)
  then show ?thesis using assms by (simp add: uint32_def)
qed

lemma n_draws_wrapped:
  assumes "product < n_founders" and "n_founders < 2 ^ 32"
  shows "uint32 (uint32 product + 2 ^ 32 - uint32 n_founders) = 2 ^ 32 - (n_founders - product)"
  using assms by (simp add: uint32_def)

lemma resize_empty: "resize [] n v = replicate n v"
  by (simp add: resize_def)

text \<open>
  For every stream of random numbers (every seed), in either build, and for every
  configuration with \<open>1 \<le> n_founders \<le> n_samples * n_ploidy\<close> whose product
  \<open>n_samples * n_ploidy\<close> fits in 32 bits, both simulations succeed; the
  multiplicities are one per founder, each at least 1, and sum to
  \<open>n_samples * n_ploidy\<close>; the map has \<open>n_samples\<close> rows of \<open>n_ploidy\<close>
  slots, \<open>n_samples * n_ploidy\<close> entries in all; founder \<open>f\<close> appears in it
  exactly its multiplicity times, and nothing but a founder index appears.
\<close>

theorem haplotypes_map_multiplicities:
  assumes "1 \<le> n_founders" and "n_founders \<le> n_samples * n_ploidy"
    and "n_samples * n_ploidy < 2 ^ 32"
  shows "\<exists>founders_d generator' haplotypes_m generator''.
           simulate_founders_distribution debug [] n_founders n_samples n_ploidy generator =
             Inr (founders_d, generator') \<and>
           simulate_haplotypes_map debug founders_d n_samples n_ploidy generator' =
             Inr (haplotypes_m, generator'') \<and>
           length founders_d = n_founders \<and>
           sum_list founders_d = n_samples * n_ploidy \<and>
           (\<forall>f<n_founders. 1 \<le> founders_d ! f) \<and>
           length haplotypes_m = n_samples \<and>
           (\<forall>row\<in>set haplotypes_m. length row = n_ploidy) \<and>
           length (concat haplotypes_m) = n_samples * n_ploidy \<and>
           (\<forall>f. count_list (concat haplotypes_m) f =
                  (if f < n_founders then founders_d ! f else 0))"
proof -
  define P where "P = n_samples * n_ploidy"
  have uP: "uint32 P = P" using assms(3) by (simp add: uint32_def P_def)
  have pos: "n_samples > 0" using assms(1,2) by (cases n_samples) auto
  have "uint32 (uint32 P + 2 ^ 32 - uint32 n_founders) = P - n_founders"
    using assms(2,3) unfolding P_def by (rule n_draws_difference)
  then have nd: "uint32 (P + 2 ^ 32 - uint32 n_founders) = P - n_founders"
    by (simp only: uP)
  define start where "start = replicate n_founders (1::nat)"
  define drawn where "drawn = draw_founders (P - n_founders) n_founders start generator"
  define founders_d where "founders_d = fst drawn"
  define generator' where "generator' = snd drawn"
  have sfd: "simulate_founders_distribution debug [] n_founders n_samples n_ploidy generator =
               Inr (founders_d, generator')"
    unfolding simulate_founders_distribution_def P_def[symmetric] uP nd resize_empty
    using pos assms(1,2)
    by (simp add: founders_d_def generator'_def drawn_def start_def P_def)
  have n32: "n_founders < 2 ^ 32" using assms(2,3) by simp
  have s0: "sum_list start + (P - n_founders) + 1 < 2 ^ 32 + n_founders"
    using assms(1,2,3) by (simp add: start_def sum_list_replicate P_def)
  have spec: "length founders_d = n_founders \<and>
         sum_list founders_d = sum_list start + (P - n_founders) \<and>
         (\<forall>f<n_founders. 1 \<le> founders_d ! f)"
    unfolding founders_d_def drawn_def
    by (rule draw_founders_spec[OF _ assms(1) n32 s0]) (simp_all add: start_def)
  then have len: "length founders_d = n_founders"
    and sum: "sum_list founders_d = P"
    and ge: "\<forall>f<n_founders. 1 \<le> founders_d ! f"
    using assms(2) by (simp_all add: start_def sum_list_replicate P_def)
  define shuffled where "shuffled = shuffle (fill_founders founders_d) generator'"
  define flat where "flat = fst shuffled"
  define generator'' where "generator'' = snd shuffled"
  define haplotypes_m where "haplotypes_m = reshape n_samples n_ploidy flat"
  have lf: "length (fill_founders founders_d) = P" by (simp add: length_fill_founders sum)
  have shm: "simulate_haplotypes_map debug founders_d n_samples n_ploidy generator' =
               Inr (haplotypes_m, generator'')"
    using lf
    by (simp add: simulate_haplotypes_map_def sum P_def[symmetric] haplotypes_m_def
        generator''_def flat_def shuffled_def split: prod.splits)
  have ms: "mset flat = mset (fill_founders founders_d)"
    unfolding flat_def shuffled_def by (rule shuffle_mset)
  then have lflat: "length flat = P" using lf by (metis size_mset)
  have cc: "concat haplotypes_m = flat"
    by (simp add: haplotypes_m_def concat_reshape lflat P_def[symmetric])
  have rows: "\<forall>row\<in>set haplotypes_m. length row = n_ploidy"
    using reshape_rows[of flat n_samples n_ploidy] lflat
    by (simp add: haplotypes_m_def P_def)
  have cnt: "count_list (concat haplotypes_m) f = (if f < n_founders then founders_d ! f else 0)"
    for f
  proof -
    have "count_list flat f = count (mset flat) f" by (simp only: count_mset)
    also have "\<dots> = count_list (fill_founders founders_d) f" by (simp only: ms count_mset)
    finally show ?thesis by (simp add: cc count_fill_founders len)
  qed
  have "length haplotypes_m = n_samples" by (simp add: haplotypes_m_def reshape_def)
  moreover have "length (concat haplotypes_m) = n_samples * n_ploidy"
    by (simp add: cc lflat P_def)
  ultimately show ?thesis
    using sfd shm len sum ge rows cnt unfolding P_def by blast
qed

text \<open>
  Three founders for two diploid samples, with the stream of the squares: one draw
  gives the multiplicities \<open>[2, 1, 1]\<close>, and the shuffle gives the map
  \<open>[[0, 2], [0, 1]]\<close>.
\<close>

lemma simulated_founders_example:
  "\<exists>g. simulate_founders_distribution debug [] 3 2 2 (\<lambda>i. i * i) = Inr ([2, 1, 1], g)"
proof -
  have r: "resize [] 3 (1::nat) = [1, 1, 1]" by (simp add: resize_def numeral_3_eq_3)
  have p: "uint32 (2 * 2) = 4" by (simp add: uint32_def)
  have b: "uint32 (3 + 2 ^ 32 - 1) = 2" by (simp add: uint32_def)
  have n: "uint32 (4 + 2 ^ 32 - uint32 3) = Suc 0" by (simp add: uint32_def)
  have u: "uint32 (1 + 1) = 2" by (simp add: uint32_def)
  have d: "uniform_int_distribution 0 2 (\<lambda>i. i * i) = (0, \<lambda>i. Suc i * Suc i)"
    by (simp add: uniform_int_distribution_def)
  have "draw_founders (Suc 0) 3 [1, 1, 1] (\<lambda>i. i * i) = ([2, 1, 1], \<lambda>i. Suc i * Suc i)"
    by (simp only: draw_founders.simps b d prod.case nth_Cons_0 u list_update_code)
  then show ?thesis
    by (simp only: simulate_founders_distribution_def p r n) simp
qed

lemma simulated_map_example:
  "\<exists>g. simulate_haplotypes_map debug [2, 1, 1] 2 2 (\<lambda>i. Suc i * Suc i) =
          Inr ([[0, 2], [0, 1]], g)"
proof -
  have u1: "[0..<3] = [0, 1, 2]" and u2: "[1..<4] = [1, 2, 3]" and u3: "[0..<2] = [0, 1]"
    by (simp_all add: upt_rec)
  have f: "fill_founders [2, 1, 1] = [0, 0, 1, 2]"
  proof -
    have "replicate 2 (0::nat) = [0, 0]" by (simp add: numeral_2_eq_2)
    then show ?thesis by (simp add: fill_founders_def u1)
  qed
  have s: "fst (shuffle [0, 0, 1, 2 :: nat] (\<lambda>i. Suc i * Suc i)) = [0, 2, 0, 1]"
    by (simp add: shuffle_def u2 uniform_int_distribution_def)
  have r: "reshape 2 2 [0, 2, 0, 1 :: nat] = [[0, 2], [0, 1]]"
    by (simp add: reshape_def u3)
  have a: "uint32 (sum_list [2, 1, 1]) = uint32 (2 * 2)" by simp
  have l: "length [0, 0, 1, 2 :: nat] = 2 * 2" by simp
  have e: "[0, 0, 1, 2 :: nat] @ replicate (2 * 2 - 2 * 2) 0 = [0, 0, 1, 2]"
    by simp
  obtain flat g where sh: "shuffle [0, 0, 1, 2 :: nat] (\<lambda>i. Suc i * Suc i) = (flat, g)"
    by (cases "shuffle [0, 0, 1, 2 :: nat] (\<lambda>i. Suc i * Suc i)") auto
  with s have fl: "flat = [0, 2, 0, 1]" by simp
  have "simulate_haplotypes_map debug [2, 1, 1] 2 2 (\<lambda>i. Suc i * Suc i) =
          Inr ([[0, 2], [0, 1]], g)"
    unfolding simulate_haplotypes_map_def f
    by (simp only: a l e sh fl r if_False simp_thms less_irrefl prod.case)
  then show ?thesis by blast
qed

lemma haplotypes_map_multiplicities_example:
  "(1::nat) \<le> 3 \<and> (3::nat) \<le> 2 * 2 \<and> (2::nat) * 2 < 2 ^ 32 \<and>
   (\<exists>g. simulate_founders_distribution True [] 3 2 2 (\<lambda>i. i * i) = Inr ([2, 1, 1], g)) \<and>
   (\<exists>g. simulate_haplotypes_map True [2, 1, 1] 2 2 (\<lambda>i. Suc i * Suc i) =
          Inr ([[0, 2], [0, 1]], g)) \<and>
   (\<exists>founders_d generator' haplotypes_m generator''.
      simulate_founders_distribution True [] 3 2 2 (\<lambda>i. i * i) = Inr (founders_d, generator') \<and>
      simulate_haplotypes_map True founders_d 2 2 generator' = Inr (haplotypes_m, generator'') \<and>
      length founders_d = 3 \<and>
      sum_list founders_d = 2 * 2 \<and>
      (\<forall>f<3. 1 \<le> founders_d ! f) \<and>
      length haplotypes_m = 2 \<and>
      (\<forall>row\<in>set haplotypes_m. length row = 2) \<and>
      length (concat haplotypes_m) = 2 * 2 \<and>
      (\<forall>f. count_list (concat haplotypes_m) f = (if f < 3 then founders_d ! f else 0)))"
proof -
  have h1: "(1::nat) \<le> 3" by simp
  have h2: "(3::nat) \<le> 2 * 2" by simp
  have h3: "(2::nat) * 2 < 2 ^ 32" by simp
  show ?thesis
    by (rule conjI, rule h1, rule conjI, rule h2, rule conjI, rule h3,
        rule conjI, rule simulated_founders_example, rule conjI, rule simulated_map_example,
        rule haplotypes_map_multiplicities[OF h1 h2 h3])
qed

text \<open>
  Claim C7: for every valid configuration the simulated map has
  \<open>n_samples * n_ploidy\<close> slots, in which every founder appears as many times as
  its multiplicity, the multiplicities being at least 1 each and
  \<open>n_samples * n_ploidy\<close> in sum. One founder, \<open>2^30\<close> samples and ploidy 4 is
  a valid configuration on which the code does not do so, for every stream of random
  numbers: the product \<open>n_samples * n_ploidy\<close>, computed in \<^verbatim>\<open>uint32_t\<close>, is 0. In
  the debug build the assertion \<open>n_founders \<le> n_samples * n_ploidy\<close> fails and
  no map is made. With the assertions compiled out the loop draws \<open>2^32 - 1\<close> times,
  the one multiplicity wraps around from 1 to 0, nothing is filled into the map, and
  the map of \<open>2^32\<close> slots (given the memory for it) holds founder 0 everywhere:
  \<open>2^32\<close> appearances for a multiplicity of 0, and multiplicities that sum to 0.
\<close>

theorem haplotypes_map_wraps:
  "(1::nat) \<le> 1 \<and> (1::nat) \<le> 2 ^ 30 * 4 \<and>
   uint32 (2 ^ 30 * 4) = 0 \<and>
   simulate_founders_distribution True [] 1 (2 ^ 30) 4 generator =
     Inl (AssertionFailed ''n_founders <= n_samples * n_ploidy'') \<and>
   (\<exists>generator' haplotypes_m generator''.
      simulate_founders_distribution False [] 1 (2 ^ 30) 4 generator = Inr ([0], generator') \<and>
      simulate_haplotypes_map False [0] (2 ^ 30) 4 generator' =
        Inr (haplotypes_m, generator'') \<and>
      length (concat haplotypes_m) = 2 ^ 32 \<and>
      count_list (concat haplotypes_m) 0 = 2 ^ 32)"
proof -
  have p: "uint32 (2 ^ 30 * 4) = 0" by (simp add: uint32_def)
  have dbg: "simulate_founders_distribution True [] 1 (2 ^ 30) 4 generator =
     Inl (AssertionFailed ''n_founders <= n_samples * n_ploidy'')"
    by (simp add: simulate_founders_distribution_def uint32_def)
  define drawn where "drawn = draw_founders 4294967295 1 [1] generator"
  define generator' where "generator' = snd drawn"
  have nd: "uint32 (0 + 2 ^ 32 - uint32 1) = 4294967295" by (simp add: uint32_def)
  have r: "resize [] 1 (1::nat) = [1]" by (simp add: resize_def)
  have w: "uint32 (1 + 4294967295) = 0" by (simp add: uint32_def)
  have "(1::nat) < 2 ^ 32" by simp
  then have "fst drawn = [0]"
    unfolding drawn_def by (simp only: draw_founders_single w)
  then have dr: "drawn = ([0], generator')"
    by (simp add: generator'_def prod_eq_iff)
  have rel: "simulate_founders_distribution False [] 1 (2 ^ 30) 4 generator =
               Inr ([0], generator')"
    by (simp only: simulate_founders_distribution_def p nd r dr[unfolded drawn_def]) simp
  define N where "N = (2::nat) ^ 30 * 4"
  have N32: "N = 2 ^ 32" by (simp add: N_def)
  define shuffled where "shuffled = shuffle (replicate N (0::nat)) generator'"
  define flat where "flat = fst shuffled"
  define generator'' where "generator'' = snd shuffled"
  define haplotypes_m where "haplotypes_m = reshape (2 ^ 30) 4 flat"
  have f: "fill_founders [0] = []" by (simp add: fill_founders_def)
  have sh: "shuffle (replicate N (0::nat)) generator' = (flat, generator'')"
    by (simp add: flat_def generator''_def shuffled_def)
  have shm: "simulate_haplotypes_map False [0] (2 ^ 30) 4 generator' =
               Inr (haplotypes_m, generator'')"
    unfolding simulate_haplotypes_map_def f N_def[symmetric]
    by (simp only: simp_thms if_False list.size not_less_zero diff_zero append_Nil sh
        prod.case haplotypes_m_def)
  have ms: "mset flat = mset (replicate N (0::nat))"
    unfolding flat_def shuffled_def by (rule shuffle_mset)
  have "size (mset flat) = size (mset (replicate N (0::nat)))" by (simp only: ms)
  then have lflat: "length flat = N" by simp
  have cc: "concat haplotypes_m = flat"
    unfolding haplotypes_m_def concat_reshape N_def[symmetric] using lflat by simp
  have "count_list flat 0 = count (mset flat) 0" by (simp only: count_mset)
  also have "\<dots> = N" by (simp only: ms) simp
  finally have cnt: "count_list (concat haplotypes_m) 0 = 2 ^ 32" by (simp only: cc N32)
  have len: "length (concat haplotypes_m) = 2 ^ 32" by (simp only: cc lflat N32)
  have one: "(1::nat) \<le> 1" and two: "(1::nat) \<le> 2 ^ 30 * 4" by simp_all
  show ?thesis using one two p dbg rel shm len cnt by blast
qed
section \<open>Exact fitting\<close>

lemma one_indicator:
  fixes xs :: "int list"
  assumes "\<forall>x\<in>set xs. 0 \<le> x" "sum_list xs = 1"
  shows "\<exists>k<length xs. xs ! k = 1 \<and> (\<forall>j<length xs. j \<noteq> k \<longrightarrow> xs ! j = 0)"
  using assms
proof (induction xs)
  case Nil
  then show ?case by simp
next
  case (Cons x xs)
  have x0: "0 \<le> x" and xs0: "\<forall>y\<in>set xs. 0 \<le> y" using Cons.prems(1) by simp_all
  have s0: "0 \<le> sum_list xs" using xs0 by (simp add: sum_list_nonneg)
  have s: "x + sum_list xs = 1" using Cons.prems(2) by simp
  show ?case
  proof (cases "x = 0")
    case True
    then have "sum_list xs = 1" using s by simp
    from Cons.IH[OF xs0 this] obtain k where k: "k < length xs" "xs ! k = 1"
      "\<forall>j<length xs. j \<noteq> k \<longrightarrow> xs ! j = 0" by blast
    have "\<forall>j<length (x # xs). j \<noteq> Suc k \<longrightarrow> (x # xs) ! j = 0"
    proof (intro allI impI)
      fix j assume j: "j < length (x # xs)" "j \<noteq> Suc k"
      show "(x # xs) ! j = 0"
      proof (cases j)
        case 0
        then show ?thesis using True by simp
      next
        case (Suc j')
        then show ?thesis using j k(3) by simp
      qed
    qed
    moreover have "Suc k < length (x # xs)" "(x # xs) ! Suc k = 1" using k by simp_all
    ultimately show ?thesis by blast
  next
    case False
    then have x1: "x = 1" and sz: "sum_list xs = 0" using x0 s0 s by linarith+
    have z: "\<forall>y\<in>set xs. y = 0"
      using sz xs0 by (simp add: sum_list_nonneg_eq_0_iff)
    have "\<forall>j<length (x # xs). j \<noteq> 0 \<longrightarrow> (x # xs) ! j = 0"
    proof (intro allI impI)
      fix j assume j: "j < length (x # xs)" "j \<noteq> 0"
      then obtain j' where j': "j = Suc j'" by (cases j) auto
      then have "xs ! j' \<in> set xs" using j by simp
      then show "(x # xs) ! j = 0" using z j' by simp
    qed
    moreover have "0 < length (x # xs)" "(x # xs) ! 0 = 1" using x1 by simp_all
    ultimately show ?thesis by blast
  qed
qed

lemma sum_binary_count:
  fixes a :: "nat \<Rightarrow> int"
  assumes "\<forall>f\<in>set row. a f = 0 \<or> a f = 1"
  shows "(\<Sum>f\<leftarrow>row. a f) = int (count_list (map (\<lambda>f. nat (a f)) row) 1)"
  using assms
proof (induction row)
  case Nil
  then show ?case by simp
next
  case (Cons f row)
  have "a f = 0 \<or> a f = 1" using Cons.prems by simp
  moreover have "(\<Sum>f\<leftarrow>row. a f) = int (count_list (map (\<lambda>f. nat (a f)) row) 1)"
    using Cons by simp
  ultimately show ?case by auto
qed

lemma fold_dosages_nth:
  assumes "length acc = Suc n_ploidy" "p \<le> n_ploidy"
  shows "fold (\<lambda>genotype dosages_d.
             dosages_d[dos genotype := Suc (dosages_d ! dos genotype)]) genotypes acc ! p =
         acc ! p + length (filter (\<lambda>genotype. dos genotype = p) genotypes)"
  using assms
proof (induction genotypes arbitrary: acc)
  case Nil
  then show ?case by simp
next
  case (Cons g genotypes)
  define acc' where "acc' = acc[dos g := Suc (acc ! dos g)]"
  have l: "length acc' = Suc n_ploidy" using Cons.prems(1) by (simp add: acc'_def)
  have p: "p < length acc" using Cons.prems by simp
  have n: "acc' ! p = (if dos g = p then Suc (acc ! p) else acc ! p)"
    using p by (simp add: acc'_def nth_list_update)
  from Cons.IH[OF l Cons.prems(2)] n show ?case by (simp add: acc'_def)
qed

lemma make_dosages_distribution_nth:
  assumes "p \<le> n_ploidy"
  shows "make_dosages_distribution n_ploidy genotypes ! p =
           length (filter (\<lambda>genotype. get_dosage genotype 1 = p) genotypes)"
proof -
  have "p < Suc n_ploidy" using assms by simp
  then have z: "replicate (Suc n_ploidy) (0::nat) ! p = 0" by (rule nth_replicate)
  have l: "length (replicate (Suc n_ploidy) (0::nat)) = Suc n_ploidy" by simp
  show ?thesis
    unfolding make_dosages_distribution_def
    by (simp only: fold_dosages_nth[OF l assms] z add_0)
qed

lemma length_make_dosages_distribution:
  "length (make_dosages_distribution n_ploidy genotypes) = Suc n_ploidy"
proof -
  have "length (fold (\<lambda>genotype dosages_d.
             dosages_d[dos genotype := Suc (dosages_d ! dos genotype)]) genotypes acc) = length acc"
    for acc :: "nat list" and dos :: "nat list \<Rightarrow> nat"
    by (induction genotypes arbitrary: acc) simp_all
  then show ?thesis by (simp add: make_dosages_distribution_def)
qed

lemma length_filter_sum:
  "int (length (filter P xs)) = (\<Sum>x\<leftarrow>xs. if P x then 1 else 0)"
  by (induction xs) simp_all

lemma mip_feasible_columns:
  assumes "mip_feasible n_ploidy haplotypes_m n_founders dosages_d_in sol"
  shows "length (sol_z sol) = Suc n_ploidy" and "\<forall>z\<in>set (sol_z sol). 0 \<le> z"
    and "length (sol_dosages sol) = Suc n_ploidy" and "\<forall>d\<in>set (sol_dosages sol). 0 \<le> d"
    and "length (sol_alts sol) = n_founders"
    and "\<And>f. f < n_founders \<Longrightarrow> sol_alts sol ! f = 0 \<or> sol_alts sol ! f = 1"
    and "\<And>s. s < length haplotypes_m \<Longrightarrow>
           length (sol_indicators sol ! s) = Suc n_ploidy \<and>
           (\<forall>i\<in>set (sol_indicators sol ! s). 0 \<le> i)"
proof -
  have c: "mip_columns n_ploidy (length haplotypes_m) n_founders sol"
    using assms by (simp add: mip_feasible_def)
  show "length (sol_z sol) = Suc n_ploidy" using c by (simp add: mip_columns_def)
  show "\<forall>z\<in>set (sol_z sol). 0 \<le> z" using c by (simp add: mip_columns_def)
  show "length (sol_dosages sol) = Suc n_ploidy" using c by (simp add: mip_columns_def)
  show "\<forall>d\<in>set (sol_dosages sol). 0 \<le> d" using c by (simp add: mip_columns_def)
  show l: "length (sol_alts sol) = n_founders" using c by (simp add: mip_columns_def)
  have b: "\<forall>a\<in>set (sol_alts sol). 0 \<le> a \<and> a \<le> 1" using c by (simp add: mip_columns_def)
  show "sol_alts sol ! f = 0 \<or> sol_alts sol ! f = 1" if "f < n_founders" for f
  proof -
    have "sol_alts sol ! f \<in> set (sol_alts sol)" using that l by simp
    with b have "0 \<le> sol_alts sol ! f \<and> sol_alts sol ! f \<le> 1" by blast
    then show ?thesis by linarith
  qed
  have li: "length (sol_indicators sol) = length haplotypes_m"
    and ri: "\<forall>mip_sample\<in>set (sol_indicators sol).
         length mip_sample = Suc n_ploidy \<and> (\<forall>i\<in>set mip_sample. 0 \<le> i)"
    using c by (simp_all add: mip_columns_def)
  show "length (sol_indicators sol ! s) = Suc n_ploidy \<and>
           (\<forall>i\<in>set (sol_indicators sol ! s). 0 \<le> i)" if "s < length haplotypes_m" for s
  proof -
    have "sol_indicators sol ! s \<in> set (sol_indicators sol)" using that li by simp
    with ri show ?thesis by blast
  qed
qed

lemma mip_feasible_rows:
  assumes "mip_feasible n_ploidy haplotypes_m n_founders dosages_d_in sol"
  shows "\<And>p. p \<le> n_ploidy \<Longrightarrow>
           sol_dosages sol ! p =
             (\<Sum>s\<leftarrow>[0..<length haplotypes_m]. sol_indicators sol ! s ! p)"
    and "\<And>s. s < length haplotypes_m \<Longrightarrow>
           (\<Sum>p\<leftarrow>[0..<Suc n_ploidy]. sol_indicators sol ! s ! p) = 1"
    and "\<And>s p. s < length haplotypes_m \<Longrightarrow> p \<le> n_ploidy \<Longrightarrow>
           of_int (int p - sample_sum n_ploidy haplotypes_m sol s) \<le> sol_errors sol ! s ! p \<and>
           of_int (sample_sum n_ploidy haplotypes_m sol s - int p) \<le> sol_errors sol ! s ! p \<and>
           sol_errors sol ! s ! p
             \<le> of_nat n_ploidy * (1 - of_int (sol_indicators sol ! s ! p))"
    and "\<And>p. p \<le> n_ploidy \<Longrightarrow>
           of_int (sol_dosages sol ! p) - dosages_d_in ! p \<le> sol_z sol ! p \<and>
           dosages_d_in ! p - of_int (sol_dosages sol ! p) \<le> sol_z sol ! p"
proof -
  have i: "mip_init_rows n_ploidy haplotypes_m sol"
    and f: "mip_fit_rows n_ploidy dosages_d_in sol"
    using assms by (simp_all add: mip_feasible_def)
  show "sol_dosages sol ! p =
             (\<Sum>s\<leftarrow>[0..<length haplotypes_m]. sol_indicators sol ! s ! p)" if "p \<le> n_ploidy" for p
  proof -
    have "p \<in> set [0..<Suc n_ploidy]" using that by auto
    then show ?thesis using i unfolding mip_init_rows_def by blast
  qed
  show "(\<Sum>p\<leftarrow>[0..<Suc n_ploidy]. sol_indicators sol ! s ! p) = 1"
    if "s < length haplotypes_m" for s
  proof -
    have "s \<in> set [0..<length haplotypes_m]" using that by simp
    then show ?thesis using i unfolding mip_init_rows_def by blast
  qed
  show "of_int (int p - sample_sum n_ploidy haplotypes_m sol s) \<le> sol_errors sol ! s ! p \<and>
           of_int (sample_sum n_ploidy haplotypes_m sol s - int p) \<le> sol_errors sol ! s ! p \<and>
           sol_errors sol ! s ! p
             \<le> of_nat n_ploidy * (1 - of_int (sol_indicators sol ! s ! p))"
    if "s < length haplotypes_m" "p \<le> n_ploidy" for s p
  proof -
    have "s \<in> set [0..<length haplotypes_m]" "p \<in> set [0..<Suc n_ploidy]" using that by auto
    then show ?thesis using i unfolding mip_init_rows_def by blast
  qed
  show "of_int (sol_dosages sol ! p) - dosages_d_in ! p \<le> sol_z sol ! p \<and>
           dosages_d_in ! p - of_int (sol_dosages sol ! p) \<le> sol_z sol ! p" if "p \<le> n_ploidy" for p
  proof -
    have "p \<in> set [0..<Suc n_ploidy]" using that by auto
    then show ?thesis using f unfolding mip_fit_rows_def by blast
  qed
qed

lemma sample_sum_dosage:
  assumes feas: "mip_feasible n_ploidy haplotypes_m n_founders dosages_d_in sol"
    and ok: "haplotypes_map_ok n_ploidy n_founders haplotypes_m"
    and s: "s < length haplotypes_m"
  shows "sample_sum n_ploidy haplotypes_m sol s =
           int (get_dosage (map (\<lambda>founder. map nat (sol_alts sol) ! founder) (haplotypes_m ! s)) 1)"
proof -
  define row where "row = haplotypes_m ! s"
  have rin: "row \<in> set haplotypes_m" using s by (simp add: row_def)
  then have rl: "length row = n_ploidy" and rf: "\<forall>f\<in>set row. f < n_founders"
    using ok by (auto simp: haplotypes_map_ok_def)
  have "map (\<lambda>h. sol_alts sol ! (row ! h)) [0..<length row] = map (\<lambda>f. sol_alts sol ! f) row"
    by (simp add: map_nth map_equality_iff)
  then have 1: "sample_sum n_ploidy haplotypes_m sol s = (\<Sum>f\<leftarrow>row. sol_alts sol ! f)"
    by (simp add: sample_sum_def row_def[symmetric] rl[symmetric])
  have bin: "\<forall>f\<in>set row. sol_alts sol ! f = 0 \<or> sol_alts sol ! f = 1"
    using rf mip_feasible_columns(6)[OF feas] by blast
  have 2: "(\<Sum>f\<leftarrow>row. sol_alts sol ! f) =
             int (count_list (map (\<lambda>f. nat (sol_alts sol ! f)) row) 1)"
    using bin by (rule sum_binary_count)
  have m: "map (\<lambda>f. nat (sol_alts sol ! f)) row = map (\<lambda>f. map nat (sol_alts sol) ! f) row"
    using rf mip_feasible_columns(5)[OF feas] by simp
  show ?thesis unfolding get_dosage_def row_def[symmetric] by (simp only: 1 2 m)
qed

lemma indicator_is_dosage:
  assumes feas: "mip_feasible n_ploidy haplotypes_m n_founders dosages_d_in sol"
    and s: "s < length haplotypes_m" and p: "p \<le> n_ploidy"
  shows "sol_indicators sol ! s ! p =
           (if int p = sample_sum n_ploidy haplotypes_m sol s then 1 else 0)"
proof -
  define ind where "ind = sol_indicators sol ! s"
  define \<sigma> where "\<sigma> = sample_sum n_ploidy haplotypes_m sol s"
  have len: "length ind = Suc n_ploidy" and nonneg: "\<forall>i\<in>set ind. 0 \<le> i"
    using mip_feasible_columns(7)[OF feas s] by (simp_all add: ind_def)
  have "map (\<lambda>p. ind ! p) [0..<Suc n_ploidy] = ind"
    using map_nth[of ind] len by simp
  then have "sum_list ind = (\<Sum>p\<leftarrow>[0..<Suc n_ploidy]. ind ! p)" by simp
  then have one: "sum_list ind = 1" using mip_feasible_rows(2)[OF feas s] by (simp add: ind_def)
  from one_indicator[OF nonneg one] obtain k where k: "k < length ind" "ind ! k = 1"
    and others: "\<forall>j<length ind. j \<noteq> k \<longrightarrow> ind ! j = 0" by blast
  have kp: "k \<le> n_ploidy" using k(1) len by simp
  note r = mip_feasible_rows(3)[OF feas s kp, folded \<sigma>_def ind_def]
  have "sol_errors sol ! s ! k \<le> 0" using r k(2) by simp
  with r have "(of_int (int k - \<sigma>) :: rat) \<le> 0" "(of_int (\<sigma> - int k) :: rat) \<le> 0" by linarith+
  then have "int k - \<sigma> \<le> 0" "\<sigma> - int k \<le> 0" by (simp_all only: of_int_le_0_iff)
  then have eq: "int k = \<sigma>" by simp
  show ?thesis
  proof (cases "p = k")
    case True
    then show ?thesis using k(2) eq by (simp add: ind_def \<sigma>_def)
  next
    case False
    then have "ind ! p = 0" using others p len by simp
    moreover have "int p \<noteq> \<sigma>" using False eq by simp
    ultimately show ?thesis by (simp add: ind_def \<sigma>_def)
  qed
qed

lemma dosages_are_induced:
  assumes feas: "mip_feasible n_ploidy haplotypes_m n_founders dosages_d_in sol"
    and ok: "haplotypes_map_ok n_ploidy n_founders haplotypes_m"
    and p: "p \<le> n_ploidy"
  shows "sol_dosages sol ! p =
           int (induced_distribution n_ploidy haplotypes_m (map nat (sol_alts sol)) ! p)"
proof -
  define alts where "alts = map nat (sol_alts sol)"
  define n where "n = length haplotypes_m"
  define dos where "dos = (\<lambda>s. get_dosage (map (\<lambda>founder. alts ! founder) (haplotypes_m ! s)) 1)"
  have ind: "sol_indicators sol ! s ! p = (if dos s = p then 1 else 0)" if "s < n" for s
  proof -
    have "sample_sum n_ploidy haplotypes_m sol s = int (dos s)"
      using sample_sum_dosage[OF feas ok] that by (simp add: dos_def alts_def n_def)
    then show ?thesis
      using indicator_is_dosage[OF feas _ p, of s] that by (simp add: n_def)
  qed
  have "sol_dosages sol ! p = (\<Sum>s\<leftarrow>[0..<n]. sol_indicators sol ! s ! p)"
    using mip_feasible_rows(1)[OF feas p] by (simp add: n_def)
  also have "\<dots> = (\<Sum>s\<leftarrow>[0..<n]. if dos s = p then 1 else 0)"
  proof -
    have "map (\<lambda>s. sol_indicators sol ! s ! p) [0..<n] =
            map (\<lambda>s. if dos s = p then 1 else 0) [0..<n]"
      by (rule map_cong) (simp_all add: ind)
    then show ?thesis by (rule arg_cong)
  qed
  also have "\<dots> = int (length (filter (\<lambda>s. dos s = p) [0..<n]))"
    by (simp only: length_filter_sum)
  finally have d: "sol_dosages sol ! p = int (length (filter (\<lambda>s. dos s = p) [0..<n]))" .
  have "fill_samples_alts alts haplotypes_m =
          map (\<lambda>s. map (\<lambda>founder. alts ! founder) (haplotypes_m ! s)) [0..<n]"
  proof -
    have "map (\<lambda>s. haplotypes_m ! s) [0..<n] = haplotypes_m"
      unfolding n_def by (rule map_nth)
    then have "map (map (\<lambda>founder. alts ! founder)) haplotypes_m =
                 map (map (\<lambda>founder. alts ! founder)) (map (\<lambda>s. haplotypes_m ! s) [0..<n])"
      by simp
    then show ?thesis by (simp add: fill_samples_alts_def comp_def)
  qed
  then have "induced_distribution n_ploidy haplotypes_m alts ! p =
               length (filter (\<lambda>genotype. get_dosage genotype 1 = p)
                 (map (\<lambda>s. map (\<lambda>founder. alts ! founder) (haplotypes_m ! s)) [0..<n]))"
    by (simp add: induced_distribution_def make_dosages_distribution_nth[OF p])
  also have "\<dots> = length (filter (\<lambda>s. dos s = p) [0..<n])"
    by (simp add: filter_map comp_def dos_def)
  finally show ?thesis using d by (simp add: alts_def)
qed

lemma objective_nonneg:
  assumes "mip_feasible n_ploidy haplotypes_m n_founders dosages_d_in sol"
  shows "0 \<le> mip_objective sol"
  unfolding mip_objective_def
  using mip_feasible_columns(2)[OF assms] by (simp add: sum_list_nonneg)

lemma objective_zero_exact:
  assumes feas: "mip_feasible n_ploidy haplotypes_m n_founders dosages_d_in sol"
    and z: "mip_objective sol \<le> 0" and p: "p \<le> n_ploidy"
  shows "of_int (sol_dosages sol ! p) = dosages_d_in ! p"
proof -
  have nn: "\<forall>z\<in>set (sol_z sol). 0 \<le> z" by (rule mip_feasible_columns(2)[OF feas])
  have "sum_list (sol_z sol) = 0"
    using z objective_nonneg[OF feas] by (simp add: mip_objective_def)
  then have all0: "\<forall>z\<in>set (sol_z sol). z = 0"
    using nn by (simp add: sum_list_nonneg_eq_0_iff)
  have "p < length (sol_z sol)" using p mip_feasible_columns(1)[OF feas] by simp
  then have "sol_z sol ! p \<in> set (sol_z sol)" by simp
  with all0 have "sol_z sol ! p = 0" by blast
  with mip_feasible_rows(4)[OF feas p] show ?thesis by simp
qed

lemma concat_nth_inj:
  assumes "distinct (concat xss)" "i < length xss" "j < length xss"
    and "a < length (xss ! i)" "b < length (xss ! j)" "xss ! i ! a = xss ! j ! b"
  shows "i = j \<and> a = b"
  using assms
proof (induction xss arbitrary: i j)
  case Nil
  then show ?case by simp
next
  case (Cons xs rest)
  have dx: "distinct xs" and dr: "distinct (concat rest)"
    and disj: "set xs \<inter> set (concat rest) = {}"
    using Cons.prems(1) by simp_all
  have inrest: "rest ! k ! c \<in> set (concat rest)" if "k < length rest" "c < length (rest ! k)" for k c
  proof -
    have "rest ! k \<in> set rest" using that(1) by simp
    moreover have "rest ! k ! c \<in> set (rest ! k)" using that(2) by simp
    ultimately show ?thesis by auto
  qed
  show ?case
  proof (cases i)
    case 0
    note i0 = 0
    show ?thesis
    proof (cases j)
      case 0
      then show ?thesis using i0 Cons.prems dx by (simp add: nth_eq_iff_index_eq)
    next
      case (Suc j')
      have "xs ! a \<in> set xs" using Cons.prems(4) i0 by simp
      moreover have "rest ! j' ! b \<in> set (concat rest)"
        using inrest[of j' b] Cons.prems(3,5) Suc by simp
      moreover have "xs ! a = rest ! j' ! b" using Cons.prems(6) i0 Suc by simp
      ultimately show ?thesis using disj by auto
    qed
  next
    case (Suc i')
    note iS = Suc
    show ?thesis
    proof (cases j)
      case 0
      have "xs ! b \<in> set xs" using Cons.prems(5) 0 by simp
      moreover have "rest ! i' ! a \<in> set (concat rest)"
        using inrest[of i' a] Cons.prems(2,4) iS by simp
      moreover have "rest ! i' ! a = xs ! b" using Cons.prems(6) iS 0 by simp
      ultimately show ?thesis using disj by auto
    next
      case (Suc j')
      have "i' = j' \<and> a = b"
        using Cons.IH[OF dr, of i' j'] Cons.prems(2,3,4,5,6) iS Suc by simp
      then show ?thesis using iS Suc by simp
    qed
  qed
qed

lemma sum_below: "(\<Sum>h\<leftarrow>[0..<m]. if h < k then (1::int) else 0) = int (min k m)"
  by (induction m) auto

lemma sum_at: "k < m \<Longrightarrow> (\<Sum>p\<leftarrow>[0..<m]. if p = k then (1::int) else 0) = 1"
proof (induction m)
  case 0
  then show ?case by simp
next
  case (Suc m)
  show ?case
  proof (cases "k = m")
    case True
    have "map (\<lambda>p. if p = k then (1::int) else 0) [0..<m] = map (\<lambda>p. 0) [0..<m]"
      by (rule map_cong) (simp_all add: True)
    then have "(\<Sum>p\<leftarrow>[0..<m]. if p = k then (1::int) else 0) = (\<Sum>p\<leftarrow>[0..<m]. 0)"
      by (rule arg_cong)
    then show ?thesis using True by simp
  next
    case False
    then have "k < m" using Suc.prems by simp
    from Suc.IH[OF this] False show ?thesis by simp
  qed
qed

lemma sum_count_index:
  "(\<Sum>s\<leftarrow>[0..<length ds]. if p = ds ! s then (1::int) else 0) = int (count_list ds p)"
proof -
  have "map (\<lambda>s. if p = ds ! s then (1::int) else 0) [0..<length ds] =
          map (\<lambda>x. if p = x then 1 else 0) (map (\<lambda>s. ds ! s) [0..<length ds])"
    by simp
  also have "\<dots> = map (\<lambda>x. if p = x then 1 else 0) ds" by (simp only: map_nth)
  finally have "(\<Sum>s\<leftarrow>[0..<length ds]. if p = ds ! s then (1::int) else 0) =
                  (\<Sum>x\<leftarrow>ds. if p = x then 1 else 0)"
    by (rule arg_cong)
  also have "\<dots> = int (count_list ds p)" by (induction ds) auto
  finally show ?thesis .
qed

lemma exact_solution_exists:
  fixes target :: "nat list"
  assumes ok: "haplotypes_map_ok n_ploidy n_founders haplotypes_m"
    and dist: "distinct (concat haplotypes_m)"
    and lt: "length target = Suc n_ploidy"
    and st: "sum_list target = length haplotypes_m"
  shows "\<exists>sol. mip_feasible n_ploidy haplotypes_m n_founders (map of_nat target) sol \<and>
               mip_objective sol = 0"
proof -
  define n where "n = length haplotypes_m"
  define ds where "ds = fill_founders target"
  have lds: "length ds = n" by (simp add: ds_def length_fill_founders st n_def)
  have cds: "count_list ds p = target ! p" if "p \<le> n_ploidy" for p
    using that lt by (simp add: ds_def count_fill_founders)
  have bds: "ds ! s \<le> n_ploidy" if "s < n" for s
  proof (rule ccontr)
    assume "\<not> ds ! s \<le> n_ploidy"
    then have "count_list ds (ds ! s) = 0" using lt by (simp add: ds_def count_fill_founders)
    then have "ds ! s \<notin> set ds" unfolding count_list_0_iff .
    then show False using that lds by simp
  qed
  define av :: "nat \<Rightarrow> int" where
    "av = (\<lambda>f. if (\<exists>s<n. \<exists>h<n_ploidy. haplotypes_m ! s ! h = f \<and> h < ds ! s) then 1 else 0)"
  define sol where "sol =
     \<lparr>sol_z = replicate (Suc n_ploidy) (0::rat),
      sol_dosages = map int target,
      sol_errors = map (\<lambda>s. map (\<lambda>p. \<bar>of_int (int p - int (ds ! s))\<bar>) [0..<Suc n_ploidy]) [0..<n],
      sol_indicators = map (\<lambda>s. map (\<lambda>p. if p = ds ! s then 1 else 0) [0..<Suc n_ploidy]) [0..<n],
      sol_alts = map av [0..<n_founders]\<rparr>"
  have row: "length (haplotypes_m ! s) = n_ploidy" "\<forall>f\<in>set (haplotypes_m ! s). f < n_founders"
    if "s < n" for s
  proof -
    have "haplotypes_m ! s \<in> set haplotypes_m" using that by (simp add: n_def)
    then show "length (haplotypes_m ! s) = n_ploidy" "\<forall>f\<in>set (haplotypes_m ! s). f < n_founders"
      using ok by (auto simp: haplotypes_map_ok_def)
  qed
  have fnd: "haplotypes_m ! s ! h < n_founders" if "s < n" "h < n_ploidy" for s h
    using row[OF that(1)] that(2) by simp
  have av_slot: "av (haplotypes_m ! s ! h) = (if h < ds ! s then 1 else 0)"
    if s: "s < n" and h: "h < n_ploidy" for s h
  proof (cases "h < ds ! s")
    case True
    then show ?thesis using s h unfolding av_def by auto
  next
    case False
    have "\<not> (\<exists>s'<n. \<exists>h'<n_ploidy. haplotypes_m ! s' ! h' = haplotypes_m ! s ! h \<and> h' < ds ! s')"
    proof
      assume "\<exists>s'<n. \<exists>h'<n_ploidy. haplotypes_m ! s' ! h' = haplotypes_m ! s ! h \<and> h' < ds ! s'"
      then obtain s' h' where o: "s' < n" "h' < n_ploidy"
        "haplotypes_m ! s' ! h' = haplotypes_m ! s ! h" "h' < ds ! s'" by blast
      have "s' = s \<and> h' = h"
        using concat_nth_inj[OF dist, of s' s h' h] o(1,2,3) s h row(1)[OF s] row(1)[OF o(1)]
        by (simp add: n_def)
      with o(4) False show False by simp
    qed
    then show ?thesis using False unfolding av_def by simp
  qed
  have sigma: "sample_sum n_ploidy haplotypes_m sol s = int (ds ! s)" if s: "s < n" for s
  proof -
    have "map (\<lambda>h. sol_alts sol ! (haplotypes_m ! s ! h)) [0..<n_ploidy] =
            map (\<lambda>h. if h < ds ! s then 1 else 0) [0..<n_ploidy]"
    proof (rule map_cong)
      fix h assume "h \<in> set [0..<n_ploidy]"
      then have h: "h < n_ploidy" by simp
      have "sol_alts sol ! (haplotypes_m ! s ! h) = av (haplotypes_m ! s ! h)"
        using fnd[OF s h] by (simp add: sol_def)
      then show "sol_alts sol ! (haplotypes_m ! s ! h) = (if h < ds ! s then 1 else 0)"
        using av_slot[OF s h] by simp
    qed simp
    then have "sample_sum n_ploidy haplotypes_m sol s =
                 (\<Sum>h\<leftarrow>[0..<n_ploidy]. if h < ds ! s then 1 else 0)"
      unfolding sample_sum_def by (rule arg_cong)
    also have "\<dots> = int (min (ds ! s) n_ploidy)" by (rule sum_below)
    finally show ?thesis using bds[OF s] by (simp add: min_def)
  qed
  have indn: "sol_indicators sol ! s ! p = (if p = ds ! s then 1 else 0)"
    if "s < n" "p \<le> n_ploidy" for s p
  proof -
    have "p < Suc n_ploidy" using that(2) by simp
    then have "map (\<lambda>p. if p = ds ! s then (1::int) else 0) [0..<Suc n_ploidy] ! p =
                 (if p = ds ! s then 1 else 0)"
      by (simp only: nth_map_upt diff_zero add_0)
    then show ?thesis using that(1) by (simp add: sol_def)
  qed
  have errn: "sol_errors sol ! s ! p = \<bar>of_int (int p - int (ds ! s))\<bar>"
    if "s < n" "p \<le> n_ploidy" for s p
  proof -
    have "p < Suc n_ploidy" using that(2) by simp
    then have "map (\<lambda>p. \<bar>of_int (int p - int (ds ! s))\<bar> :: rat) [0..<Suc n_ploidy] ! p =
                 \<bar>of_int (int p - int (ds ! s))\<bar>"
      by (simp only: nth_map_upt diff_zero add_0)
    then show ?thesis using that(1) by (simp add: sol_def)
  qed
  have cols: "mip_columns n_ploidy (length haplotypes_m) n_founders sol"
    unfolding mip_columns_def
    by (auto simp: sol_def lt n_def av_def)
  have r1: "sol_dosages sol ! p = (\<Sum>s\<leftarrow>[0..<length haplotypes_m]. sol_indicators sol ! s ! p)"
    if p: "p \<le> n_ploidy" for p
  proof -
    have "map (\<lambda>s. sol_indicators sol ! s ! p) [0..<n] =
            map (\<lambda>s. if p = ds ! s then 1 else 0) [0..<n]"
      by (rule map_cong) (simp_all add: indn p)
    then have "(\<Sum>s\<leftarrow>[0..<n]. sol_indicators sol ! s ! p) =
                 (\<Sum>s\<leftarrow>[0..<n]. if p = ds ! s then 1 else 0)"
      by (rule arg_cong)
    also have "\<dots> = int (count_list ds p)"
      using sum_count_index[of p ds] by (simp add: lds)
    also have "\<dots> = int (target ! p)" by (simp add: cds p)
    finally show ?thesis using p lt by (simp add: sol_def n_def)
  qed
  have r2: "(\<Sum>p\<leftarrow>[0..<Suc n_ploidy]. sol_indicators sol ! s ! p) = 1" if s: "s < n" for s
  proof -
    have "map (\<lambda>p. sol_indicators sol ! s ! p) [0..<Suc n_ploidy] =
            map (\<lambda>p. if p = ds ! s then 1 else 0) [0..<Suc n_ploidy]"
      by (rule map_cong) (auto simp: indn s)
    then have "(\<Sum>p\<leftarrow>[0..<Suc n_ploidy]. sol_indicators sol ! s ! p) =
                 (\<Sum>p\<leftarrow>[0..<Suc n_ploidy]. if p = ds ! s then 1 else 0)"
      by (rule arg_cong)
    also have "\<dots> = 1" by (rule sum_at) (use bds[OF s] in simp)
    finally show ?thesis .
  qed
  have r3: "of_int (int p - sample_sum n_ploidy haplotypes_m sol s) \<le> sol_errors sol ! s ! p \<and>
           of_int (sample_sum n_ploidy haplotypes_m sol s - int p) \<le> sol_errors sol ! s ! p \<and>
           sol_errors sol ! s ! p
             \<le> of_nat n_ploidy * (1 - of_int (sol_indicators sol ! s ! p))"
    if s: "s < n" and p: "p \<le> n_ploidy" for s p
  proof -
    define k where "k = ds ! s"
    have kb: "k \<le> n_ploidy" using bds[OF s] by (simp add: k_def)
    have e: "sol_errors sol ! s ! p = \<bar>of_int (int p - int k)\<bar>"
      using errn[OF s p] by (simp add: k_def)
    have i: "sol_indicators sol ! s ! p = (if p = k then 1 else 0)"
      using indn[OF s p] by (simp add: k_def)
    have sg: "sample_sum n_ploidy haplotypes_m sol s = int k" using sigma[OF s] by (simp add: k_def)
    have a: "(of_int (int p - int k) :: rat) \<le> \<bar>of_int (int p - int k)\<bar>" by simp
    have b: "(of_int (int k - int p) :: rat) \<le> \<bar>of_int (int p - int k)\<bar>"
    proof -
      have "(of_int (int k - int p) :: rat) = - of_int (int p - int k)" by simp
      then show ?thesis by (simp only: neg_le_iff_le abs_ge_minus_self)
    qed
    have c: "\<bar>of_int (int p - int k) :: rat\<bar> \<le> of_nat n_ploidy * (1 - of_int (if p = k then 1 else 0))"
    proof (cases "p = k")
      case True
      then show ?thesis by simp
    next
      case False
      have "\<bar>int p - int k\<bar> \<le> int n_ploidy" using p kb by linarith
      then have "(of_int \<bar>int p - int k\<bar> :: rat) \<le> of_int (int n_ploidy)"
        by (simp only: of_int_le_iff)
      then show ?thesis using False by simp
    qed
    show ?thesis using a b c by (simp only: e i sg)
  qed
  have init: "mip_init_rows n_ploidy haplotypes_m sol"
    unfolding mip_init_rows_def
  proof (intro conjI ballI)
    fix dosage assume "dosage \<in> set [0..<Suc n_ploidy]"
    then have "dosage \<le> n_ploidy" by auto
    then show "sol_dosages sol ! dosage =
           (\<Sum>sample_id\<leftarrow>[0..<length haplotypes_m]. sol_indicators sol ! sample_id ! dosage)"
      by (rule r1)
  next
    fix sample_id assume "sample_id \<in> set [0..<length haplotypes_m]"
    then have "sample_id < n" by (simp add: n_def)
    then show "(\<Sum>dosage\<leftarrow>[0..<Suc n_ploidy]. sol_indicators sol ! sample_id ! dosage) = 1"
      by (rule r2)
  next
    fix sample_id dosage
    assume "sample_id \<in> set [0..<length haplotypes_m]" "dosage \<in> set [0..<Suc n_ploidy]"
    then have s: "sample_id < n" and p: "dosage \<le> n_ploidy" by (auto simp: n_def)
    note r = r3[OF s p]
    show "of_int (int dosage - sample_sum n_ploidy haplotypes_m sol sample_id)
           \<le> sol_errors sol ! sample_id ! dosage" using r by blast
    show "of_int (sample_sum n_ploidy haplotypes_m sol sample_id - int dosage)
           \<le> sol_errors sol ! sample_id ! dosage" using r by blast
    show "sol_errors sol ! sample_id ! dosage
           \<le> of_nat n_ploidy * (1 - of_int (sol_indicators sol ! sample_id ! dosage))"
      using r by blast
  qed
  have fit: "mip_fit_rows n_ploidy (map of_nat target) sol"
    unfolding mip_fit_rows_def
  proof (intro ballI)
    fix dosage assume "dosage \<in> set [0..<Suc n_ploidy]"
    then have p: "dosage < Suc n_ploidy" by auto
    have z: "sol_z sol ! dosage = 0" using p by (simp only: sol_def mip_solution.simps nth_replicate)
    have d: "sol_dosages sol ! dosage = int (target ! dosage)" using p lt by (simp add: sol_def)
    have t: "map of_nat target ! dosage = (of_nat (target ! dosage) :: rat)" using p lt by simp
    show "of_int (sol_dosages sol ! dosage) - map of_nat target ! dosage \<le> sol_z sol ! dosage \<and>
        map of_nat target ! dosage - of_int (sol_dosages sol ! dosage) \<le> sol_z sol ! dosage"
      by (simp only: z d t) simp
  qed
  have "mip_feasible n_ploidy haplotypes_m n_founders (map of_nat target) sol"
    using cols init fit by (simp add: mip_feasible_def)
  moreover have "mip_objective sol = 0"
    by (simp add: mip_objective_def sol_def sum_list_replicate)
  ultimately show ?thesis by blast
qed

lemma optimal_reaches_target:
  fixes target :: "nat list"
  assumes ok: "haplotypes_map_ok n_ploidy n_founders haplotypes_m"
    and lt: "length target = Suc n_ploidy"
    and zero: "\<exists>sol0. mip_feasible n_ploidy haplotypes_m n_founders (map of_nat target) sol0 \<and>
                      mip_objective sol0 = 0"
    and opt: "mip_optimal n_ploidy haplotypes_m n_founders (map of_nat target) sol"
  shows "mip_objective sol = 0"
    and "induced_distribution n_ploidy haplotypes_m (map nat (sol_alts sol)) = target"
    and "map nat (sol_dosages sol) = target"
proof -
  have feas: "mip_feasible n_ploidy haplotypes_m n_founders (map of_nat target) sol"
    using opt by (simp add: mip_optimal_def)
  from zero obtain sol0 where
    "mip_feasible n_ploidy haplotypes_m n_founders (map of_nat target) sol0"
    "mip_objective sol0 = 0" by blast
  then have le: "mip_objective sol \<le> 0" using opt unfolding mip_optimal_def by fastforce
  then show "mip_objective sol = 0" using objective_nonneg[OF feas] by simp
  have d: "sol_dosages sol ! p = int (target ! p)" if p: "p \<le> n_ploidy" for p
  proof -
    have "(of_int (sol_dosages sol ! p) :: rat) = map of_nat target ! p"
      by (rule objective_zero_exact[OF feas le p])
    also have "\<dots> = of_int (int (target ! p))" using p lt by simp
    finally show ?thesis by (simp only: of_int_eq_iff)
  qed
  show "induced_distribution n_ploidy haplotypes_m (map nat (sol_alts sol)) = target"
  proof (rule nth_equalityI)
    show "length (induced_distribution n_ploidy haplotypes_m (map nat (sol_alts sol))) =
            length target"
      by (simp add: induced_distribution_def length_make_dosages_distribution lt)
  next
    fix p assume "p < length (induced_distribution n_ploidy haplotypes_m (map nat (sol_alts sol)))"
    then have p: "p \<le> n_ploidy"
      by (simp add: induced_distribution_def length_make_dosages_distribution)
    have "int (induced_distribution n_ploidy haplotypes_m (map nat (sol_alts sol)) ! p) =
            int (target ! p)"
      using dosages_are_induced[OF feas ok p] d[OF p] by simp
    then show "induced_distribution n_ploidy haplotypes_m (map nat (sol_alts sol)) ! p = target ! p"
      by simp
  qed
  show "map nat (sol_dosages sol) = target"
  proof (rule nth_equalityI)
    show "length (map nat (sol_dosages sol)) = length target"
      using mip_feasible_columns(3)[OF feas] lt by simp
  next
    fix p assume "p < length (map nat (sol_dosages sol))"
    then have p: "p \<le> n_ploidy" and pl: "p < length (sol_dosages sol)"
      using mip_feasible_columns(3)[OF feas] by simp_all
    show "map nat (sol_dosages sol) ! p = target ! p" using d[OF p] pl by simp
  qed
qed

lemma mip_fit_reaches_target:
  fixes target :: "nat list"
  assumes ok: "haplotypes_map_ok n_ploidy n_founders haplotypes_m"
    and lt: "length target = Suc n_ploidy"
    and st: "sum_list target = length haplotypes_m"
    and la: "length founders_alts = n_founders"
    and zero: "\<exists>sol0. mip_feasible n_ploidy haplotypes_m n_founders (map of_nat target) sol0 \<and>
                      mip_objective sol0 = 0"
    and solve: "solve n_ploidy haplotypes_m n_founders (map of_nat target) = Some sol"
    and opt: "mip_optimal n_ploidy haplotypes_m n_founders (map of_nat target) sol"
  shows "mip_fitting_fit debug solve n_ploidy haplotypes_m n_founders founders_alts (map of_nat target) =
           Inr (map nat (sol_alts sol), 0) \<and>
         induced_distribution n_ploidy haplotypes_m (map nat (sol_alts sol)) = target"
proof -
  note r = optimal_reaches_target[OF ok lt zero opt]
  have feas: "mip_feasible n_ploidy haplotypes_m n_founders (map of_nat target) sol"
    using opt by (simp add: mip_optimal_def)
  have l: "length (sol_alts sol) = n_founders" by (rule mip_feasible_columns(5)[OF feas])
  have "mip_fitting_fit debug solve n_ploidy haplotypes_m n_founders founders_alts (map of_nat target) =
           Inr (map nat (sol_alts sol), 0)"
    by (simp add: mip_fitting_fit_def solve r(1) r(3) st l la)
  with r(2) show ?thesis by simp
qed

lemma zero_is_optimal:
  assumes "mip_feasible n_ploidy haplotypes_m n_founders dosages_d_in sol"
    and "mip_objective sol = 0"
  shows "mip_optimal n_ploidy haplotypes_m n_founders dosages_d_in sol"
  unfolding mip_optimal_def using assms objective_nonneg by simp

lemma two_pairs_feasible:
  "mip_feasible 2 [[0, 0], [1, 1]] 2 [1, 0, 1] two_pairs_solution"
  by code_simp

lemma half_feasible:
  "mip_feasible 2 [[0, 1]] 2 [1 / 2, 1 / 2, 0] half_solution"
  by code_simp

lemma four_slots_feasible:
  "mip_feasible 2 [[0, 1], [2, 3]] 4 [1, 0, 1] four_slots_solution"
  by code_simp

lemma half_away_from_integer:
  fixes d :: int and z :: rat
  assumes "of_int d - 1 / 2 \<le> z" "1 / 2 - of_int d \<le> z"
  shows "1 / 2 \<le> z"
proof (cases "d \<le> 0")
  case True
  then have "(of_int d :: rat) \<le> 0" by simp
  with assms(2) show ?thesis by linarith
next
  case False
  then have "1 \<le> d" by simp
  then have "(1 :: rat) \<le> of_int d" by simp
  with assms(1) show ?thesis by linarith
qed

lemma half_target_bound:
  assumes feas: "mip_feasible 2 [[0, 1]] 2 [1 / 2, 1 / 2, 0] sol"
  shows "1 \<le> mip_objective sol"
proof -
  have l: "length (sol_z sol) = 3" using mip_feasible_columns(1)[OF feas] by simp
  then obtain a b c where z: "sol_z sol = [a, b, c]"
    by (cases "sol_z sol"; cases "tl (sol_z sol)"; cases "tl (tl (sol_z sol))") auto
  have nn: "0 \<le> c" using mip_feasible_columns(2)[OF feas] z by simp
  have r0: "of_int (sol_dosages sol ! 0) - 1 / 2 \<le> a \<and> 1 / 2 - of_int (sol_dosages sol ! 0) \<le> a"
    using mip_feasible_rows(4)[OF feas, of 0] z by simp
  have r1: "of_int (sol_dosages sol ! 1) - 1 / 2 \<le> b \<and> 1 / 2 - of_int (sol_dosages sol ! 1) \<le> b"
    using mip_feasible_rows(4)[OF feas, of 1] z by simp
  have "1 / 2 \<le> a" using r0 half_away_from_integer by blast
  moreover have "1 / 2 \<le> b" using r1 half_away_from_integer by blast
  ultimately show ?thesis using nn by (simp add: mip_objective_def z)
qed

lemma half_optimal: "mip_optimal 2 [[0, 1]] 2 [1 / 2, 1 / 2, 0] half_solution"
proof -
  have "mip_objective half_solution = 1" by (simp add: mip_objective_def half_solution_def)
  then show ?thesis
    unfolding mip_optimal_def using half_feasible half_target_bound by simp
qed

lemma induced_two_pairs:
  "induced_distribution 2 [[0, 0], [1, 1]] [0, 0] = [2, 0, 0]"
  "induced_distribution 2 [[0, 0], [1, 1]] [1, 1] = [0, 0, 2]"
  by code_simp+

lemma two_pairs_alleles:
  assumes solve: "solve 2 [[0, 0], [1, 1]] 2 [1, 0, 1] = Some sol"
    and opt: "mip_optimal 2 [[0, 0], [1, 1]] 2 [1, 0, 1] sol"
  shows "mip_fitting_fit debug solve 2 [[0, 0], [1, 1]] 2 [0, 0] [1, 0, 1] = Inr ([0, 1], 0) \<or>
         mip_fitting_fit debug solve 2 [[0, 0], [1, 1]] 2 [0, 0] [1, 0, 1] = Inr ([1, 0], 0)"
proof -
  have t: "map of_nat [1, 0, 1 :: nat] = [1, 0, 1 :: rat]" by simp
  have ok: "haplotypes_map_ok 2 2 [[0, 0], [1, 1]]" by (simp add: haplotypes_map_ok_def)
  have zero: "\<exists>sol0. mip_feasible 2 [[0, 0], [1, 1]] 2 (map of_nat [1, 0, 1 :: nat]) sol0 \<and>
                      mip_objective sol0 = 0"
    unfolding t using two_pairs_feasible
    by (intro exI[of _ two_pairs_solution]) (simp add: mip_objective_def two_pairs_solution_def)
  have feas: "mip_feasible 2 [[0, 0], [1, 1]] 2 [1, 0, 1] sol"
    using opt by (simp add: mip_optimal_def)
  note r = mip_fit_reaches_target[OF ok _ _ _ zero, of "[0, 0]" solve sol, unfolded t, OF _ _ _ solve opt]
  have fit: "mip_fitting_fit debug solve 2 [[0, 0], [1, 1]] 2 [0, 0] [1, 0, 1] =
               Inr (map nat (sol_alts sol), 0)"
    and ind: "induced_distribution 2 [[0, 0], [1, 1]] (map nat (sol_alts sol)) = [1, 0, 1]"
    using r by simp_all
  have l: "length (sol_alts sol) = 2" using mip_feasible_columns(5)[OF feas] by simp
  then obtain a b where ab: "sol_alts sol = [a, b]"
    by (cases "sol_alts sol"; cases "tl (sol_alts sol)") auto
  have a: "a = 0 \<or> a = 1" using mip_feasible_columns(6)[OF feas, of 0] ab by simp
  have b: "b = 0 \<or> b = 1" using mip_feasible_columns(6)[OF feas, of 1] ab by simp
  have n00: "\<not> (a = 0 \<and> b = 0)" using ind induced_two_pairs(1) ab by auto
  have n11: "\<not> (a = 1 \<and> b = 1)" using ind induced_two_pairs(2) ab by auto
  from a b n00 n11 have "(a = 0 \<and> b = 1) \<or> (a = 1 \<and> b = 0)" by blast
  then show ?thesis using fit ab by auto
qed

text \<open>
  Claim C2, as the code has it. Let every founder be mapped to exactly one haplotype
  slot (\<open>n_founders = n_samples * n_ploidy\<close>) and let the target have
  non-negative integer entries that sum to \<open>n_samples\<close>. Then the program has an
  optimum, and whatever optimal solution the solver returns, \<^verbatim>\<open>fit\<close> returns
  the distance 0 and a founders vector whose induced distribution is the target, in
  the debug build and in the build without assertions.
  For ploidy 2, the target \<open>[1, 0, 1]\<close>, two founders and the map
  \<open>[[0, 0], [1, 1]]\<close> an optimum exists as well, and the result is
  \<open>[0, 1]\<close> or \<open>[1, 0]\<close> with distance 0.
\<close>

theorem mip_fit_exact:
  fixes target :: "nat list"
  assumes "haplotypes_map_ok n_ploidy n_founders haplotypes_m"
    and "distinct (concat haplotypes_m)"
    and "n_founders = length haplotypes_m * n_ploidy"
    and "length target = Suc n_ploidy"
    and "sum_list target = length haplotypes_m"
    and "length founders_alts = n_founders"
  shows "(\<exists>sol. mip_optimal n_ploidy haplotypes_m n_founders (map of_nat target) sol) \<and>
         (\<forall>debug solve sol.
            solve n_ploidy haplotypes_m n_founders (map of_nat target) = Some sol \<and>
            mip_optimal n_ploidy haplotypes_m n_founders (map of_nat target) sol \<longrightarrow>
              mip_fitting_fit debug solve n_ploidy haplotypes_m n_founders founders_alts
                  (map of_nat target) = Inr (map nat (sol_alts sol), 0) \<and>
              make_dosages_distribution n_ploidy
                  (fill_samples_alts (map nat (sol_alts sol)) haplotypes_m) = target) \<and>
         (\<exists>sol. mip_optimal 2 [[0, 0], [1, 1]] 2 [1, 0, 1] sol) \<and>
         (\<forall>debug solve sol.
            solve 2 [[0, 0], [1, 1]] 2 [1, 0, 1] = Some sol \<and>
            mip_optimal 2 [[0, 0], [1, 1]] 2 [1, 0, 1] sol \<longrightarrow>
              mip_fitting_fit debug solve 2 [[0, 0], [1, 1]] 2 [0, 0] [1, 0, 1] = Inr ([0, 1], 0) \<or>
              mip_fitting_fit debug solve 2 [[0, 0], [1, 1]] 2 [0, 0] [1, 0, 1] = Inr ([1, 0], 0))"
proof (intro conjI allI impI)
  note zero = exact_solution_exists[OF assms(1,2,4,5)]
  then obtain sol0 where s0:
    "mip_feasible n_ploidy haplotypes_m n_founders (map of_nat target) sol0"
    "mip_objective sol0 = 0" by blast
  show "\<exists>sol. mip_optimal n_ploidy haplotypes_m n_founders (map of_nat target) sol"
    using zero_is_optimal[OF s0] by blast
  show "mip_fitting_fit debug solve n_ploidy haplotypes_m n_founders founders_alts
                  (map of_nat target) = Inr (map nat (sol_alts sol), 0)"
    and "make_dosages_distribution n_ploidy
                  (fill_samples_alts (map nat (sol_alts sol)) haplotypes_m) = target"
    if "solve n_ploidy haplotypes_m n_founders (map of_nat target) = Some sol \<and>
        mip_optimal n_ploidy haplotypes_m n_founders (map of_nat target) sol" for debug solve sol
    using mip_fit_reaches_target[OF assms(1,4,5,6) zero, of solve sol debug] that
    by (simp_all add: induced_distribution_def)
  have "mip_objective two_pairs_solution = 0"
    by (simp add: mip_objective_def two_pairs_solution_def)
  then show "\<exists>sol. mip_optimal 2 [[0, 0], [1, 1]] 2 [1, 0, 1] sol"
    using zero_is_optimal[OF two_pairs_feasible] by blast
  show "mip_fitting_fit debug solve 2 [[0, 0], [1, 1]] 2 [0, 0] [1, 0, 1] = Inr ([0, 1], 0) \<or>
        mip_fitting_fit debug solve 2 [[0, 0], [1, 1]] 2 [0, 0] [1, 0, 1] = Inr ([1, 0], 0)"
    if "solve 2 [[0, 0], [1, 1]] 2 [1, 0, 1] = Some sol \<and>
        mip_optimal 2 [[0, 0], [1, 1]] 2 [1, 0, 1] sol" for debug solve sol
    using two_pairs_alleles[of solve sol debug] that by blast
qed

text \<open>Two samples over four founders, the target \<open>[1, 0, 1]\<close>.\<close>

theorem mip_fit_exact_witness:
  "haplotypes_map_ok 2 4 [[0, 1], [2, 3]] \<and>
   distinct (concat [[0, 1], [2, 3 :: nat]]) \<and>
   (4 :: nat) = length [[0, 1], [2, 3 :: nat]] * 2 \<and>
   length [1, 0, 1 :: nat] = Suc 2 \<and>
   sum_list [1, 0, 1 :: nat] = length [[0, 1], [2, 3 :: nat]] \<and>
   length [0, 0, 0, 0 :: nat] = 4 \<and>
   mip_optimal 2 [[0, 1], [2, 3]] 4 [1, 0, 1] four_slots_solution \<and>
   mip_fitting_fit True (\<lambda>n_ploidy haplotypes_m n_founders dosages_d_in. Some four_slots_solution)
     2 [[0, 1], [2, 3]] 4 [0, 0, 0, 0] [1, 0, 1] = Inr ([0, 0, 1, 1], 0) \<and>
   make_dosages_distribution 2 (fill_samples_alts [0, 0, 1, 1] [[0, 1], [2, 3]]) = [1, 0, 1]"
proof -
  have h1: "haplotypes_map_ok 2 4 [[0, 1], [2, 3]]" by (simp add: haplotypes_map_ok_def)
  have h2: "distinct (concat [[0, 1], [2, 3 :: nat]])" by simp
  have h3: "(4 :: nat) = length [[0, 1], [2, 3 :: nat]] * 2" by simp
  have h4: "length [1, 0, 1 :: nat] = Suc 2" by simp
  have h5: "sum_list [1, 0, 1 :: nat] = length [[0, 1], [2, 3 :: nat]]" by simp
  have h6: "length [0, 0, 0, 0 :: nat] = 4" by simp
  have t: "map of_nat [1, 0, 1 :: nat] = [1, 0, 1 :: rat]" by simp
  have "mip_objective four_slots_solution = 0"
    by (simp add: mip_objective_def four_slots_solution_def)
  then have o: "mip_optimal 2 [[0, 1], [2, 3]] 4 [1, 0, 1] four_slots_solution"
    using zero_is_optimal[OF four_slots_feasible] by blast
  have a: "map nat (sol_alts four_slots_solution) = [0, 0, 1, 1]"
    by (simp add: four_slots_solution_def)
  note c = mip_fit_exact[OF h1 h2 h3 h4 h5 h6, unfolded t]
  note q = c[THEN conjunct2, THEN conjunct1, rule_format,
      of "\<lambda>n_ploidy haplotypes_m n_founders dosages_d_in. Some four_slots_solution"
        four_slots_solution True]
  have r: "mip_fitting_fit True
      (\<lambda>n_ploidy haplotypes_m n_founders dosages_d_in. Some four_slots_solution)
        2 [[0, 1], [2, 3]] 4 [0, 0, 0, 0] [1, 0, 1] =
          Inr (map nat (sol_alts four_slots_solution), 0) \<and>
      make_dosages_distribution 2
        (fill_samples_alts (map nat (sol_alts four_slots_solution)) [[0, 1], [2, 3]]) = [1, 0, 1]"
    by (rule q) (rule conjI, rule refl, rule o)
  from r have r1: "mip_fitting_fit True
      (\<lambda>n_ploidy haplotypes_m n_founders dosages_d_in. Some four_slots_solution)
        2 [[0, 1], [2, 3]] 4 [0, 0, 0, 0] [1, 0, 1] = Inr ([0, 0, 1, 1], 0)"
    by (simp only: a)
  from r have r2: "make_dosages_distribution 2
      (fill_samples_alts [0, 0, 1, 1] [[0, 1], [2, 3]]) = [1, 0, 1]"
    by (simp only: a)
  show ?thesis
    by (rule conjI, rule h1, rule conjI, rule h2, rule conjI, rule h3, rule conjI, rule h4,
        rule conjI, rule h5, rule conjI, rule h6, rule conjI, rule o, rule conjI, rule r1,
        rule r2)
qed

text \<open>
  Claim C2 as the specification states it, for every target with non-negative entries
  that sum to \<open>n_samples\<close>, fails on a target that is not integral: one sample
  over two founders (each founder in one slot) and the target \<open>[1/2, 1/2, 0]\<close>.
  The dosages of the program are integers, so no feasible solution has the objective
  0; an optimum has the objective 1, and \<^verbatim>\<open>fit\<close> returns the distance 1.
\<close>

theorem mip_fit_half_target:
  "haplotypes_map_ok 2 2 [[0, 1]] \<and>
   distinct (concat [[0, 1 :: nat]]) \<and>
   (2 :: nat) = length [[0, 1 :: nat]] * 2 \<and>
   list_all (\<lambda>x. 0 \<le> x) [1 / 2, 1 / 2, 0 :: rat] \<and>
   sum_list [1 / 2, 1 / 2, 0 :: rat] = of_nat (length [[0, 1 :: nat]]) \<and>
   mip_optimal 2 [[0, 1]] 2 [1 / 2, 1 / 2, 0] half_solution \<and>
   mip_fitting_fit True (\<lambda>n_ploidy haplotypes_m n_founders dosages_d_in. Some half_solution)
     2 [[0, 1]] 2 [0, 0] [1 / 2, 1 / 2, 0] = Inr ([1, 0], 1) \<and>
   mip_fitting_fit False (\<lambda>n_ploidy haplotypes_m n_founders dosages_d_in. Some half_solution)
     2 [[0, 1]] 2 [0, 0] [1 / 2, 1 / 2, 0] = Inr ([1, 0], 1) \<and>
   \<not> (\<exists>sol. mip_feasible 2 [[0, 1]] 2 [1 / 2, 1 / 2, 0] sol \<and> mip_objective sol = 0)"
proof -
  have h1: "haplotypes_map_ok 2 2 [[0, 1]]" by (simp add: haplotypes_map_ok_def)
  have h2: "distinct (concat [[0, 1 :: nat]])" by simp
  have h3: "(2 :: nat) = length [[0, 1 :: nat]] * 2" by simp
  have h4: "list_all (\<lambda>x. 0 \<le> x) [1 / 2, 1 / 2, 0 :: rat]" by simp
  have h5: "sum_list [1 / 2, 1 / 2, 0 :: rat] = of_nat (length [[0, 1 :: nat]])" by simp
  have f: "mip_fitting_fit debug
     (\<lambda>n_ploidy haplotypes_m n_founders dosages_d_in. Some half_solution)
     2 [[0, 1]] 2 [0, 0] [1 / 2, 1 / 2, 0] = Inr ([1, 0], 1)" for debug
    by (simp add: mip_fitting_fit_def mip_objective_def half_solution_def)
  have n: "\<not> (\<exists>sol. mip_feasible 2 [[0, 1]] 2 [1 / 2, 1 / 2, 0] sol \<and> mip_objective sol = 0)"
  proof
    assume "\<exists>sol. mip_feasible 2 [[0, 1]] 2 [1 / 2, 1 / 2, 0] sol \<and> mip_objective sol = 0"
    then obtain sol where "mip_feasible 2 [[0, 1]] 2 [1 / 2, 1 / 2, 0] sol" "mip_objective sol = 0"
      by blast
    then show False using half_target_bound[of sol] by simp
  qed
  show ?thesis
    by (rule conjI, rule h1, rule conjI, rule h2, rule conjI, rule h3, rule conjI, rule h4,
        rule conjI, rule h5, rule conjI, rule half_optimal, rule conjI, rule f,
        rule conjI, rule f, rule n)
qed

section \<open>The run\<close>

text \<open>
  A fitting that never fails fits every marker: the greedy descent is one.
\<close>

lemma fit_founders_alts_vector_total:
  assumes "\<forall>founders_alts dosages_d. \<exists>r. fitting founders_alts dosages_d = Inr r"
  shows "\<exists>res. fit_founders_alts_vector fitting founders_alts_v dosages_v = Inr res \<and>
               length res = length founders_alts_v"
proof (induction founders_alts_v arbitrary: dosages_v)
  case Nil
  show ?case by simp
next
  case (Cons founders_alts rest)
  from assms obtain r where "fitting founders_alts (hd dosages_v) = Inr r" by blast
  then obtain a d where f: "fitting founders_alts (hd dosages_v) = Inr (a, d)"
    by (cases r) auto
  from Cons.IH[of "tl dosages_v"] obtain res where
    res: "fit_founders_alts_vector fitting rest (tl dosages_v) = Inr res"
      "length res = length rest"
    by blast
  show ?case by (simp add: f res)
qed

text \<open>
  With a valid configuration whose product \<open>n_samples * n_ploidy\<close> fits in 32
  bits, the greedy descent and a file that loads with at least one marker, the run
  ends with an output and \<^verbatim>\<open>main\<close> returns the status 0, in either build.
\<close>

lemma run_descent_succeeds:
  assumes "read_vcf ploidy file = Inr (contig_names, vs, dosages_v)" and "dosages_v \<noteq> []"
    and "1 \<le> opt_n_founders options"
    and "opt_n_founders options \<le> opt_n_samples options * ploidy"
    and "opt_n_samples options * ploidy < 2 ^ 32"
    and "\<not> opt_mip options"
  shows "\<exists>out. run debug mt19937 solve ploidy options file = Inr out"
proof -
  from haplotypes_map_multiplicities[OF assms(3,4,5), where debug = debug
      and generator = "mt19937 (opt_seed options)"]
  obtain founders_d generator' haplotypes_m generator'' where
    sfd: "simulate_founders_distribution debug [] (opt_n_founders options)
            (opt_n_samples options) ploidy (mt19937 (opt_seed options)) =
              Inr (founders_d, generator')"
    and shm: "simulate_haplotypes_map debug founders_d (opt_n_samples options) ploidy
                generator' = Inr (haplotypes_m, generator'')"
    by blast
  define dosages_v' where
    "dosages_v' = normalize_dosages_vector dosages_v (opt_n_samples options)"
  define fitting :: "founders_alts \<Rightarrow> rat list \<Rightarrow> error + founders_alts \<times> rat" where
    "fitting = (\<lambda>founders_alts dosages_d.
                  Inr (descent_fitting_fit ploidy haplotypes_m founders_alts dosages_d))"
  have "\<forall>founders_alts dosages_d. \<exists>r. fitting founders_alts dosages_d = Inr r"
    by (simp add: fitting_def)
  from fit_founders_alts_vector_total[OF this,
      of "replicate (length dosages_v') (replicate (opt_n_founders options) 0)" dosages_v']
  obtain res where
    res: "fit_founders_alts_vector fitting
            (replicate (length dosages_v') (replicate (opt_n_founders options) 0)) dosages_v' =
              Inr res"
    and len: "length res = length dosages_v'"
    by auto
  have "res \<noteq> []" using len assms(2) by (auto simp: dosages_v'_def normalize_dosages_vector_def)
  then obtain out where
    w: "write_vcf contig_names vs
          (map (\<lambda>founders_alts. fill_samples_alts founders_alts haplotypes_m) res) = Inr out"
    by (simp add: write_vcf_def)
  have "run debug mt19937 solve ploidy options file = Inr out"
    using assms(1,6) sfd shm res[unfolded fitting_def dosages_v'_def] w
    by (simp add: run_def Let_def)
  then show ?thesis by blast
qed

lemma main_descent_succeeds:
  assumes "opt_n_ploidy options \<in> set [2..<9]"
    and "read_vcf (opt_n_ploidy options) file = Inr (contig_names, vs, dosages_v)"
    and "dosages_v \<noteq> []"
    and "1 \<le> opt_n_founders options"
    and "opt_n_founders options \<le> opt_n_samples options * opt_n_ploidy options"
    and "opt_n_samples options * opt_n_ploidy options < 2 ^ 32"
    and "\<not> opt_mip options"
  shows "\<exists>out. main debug mt19937 solve options file = Returned 0 (Some out)"
proof -
  from run_descent_succeeds[OF assms(2-7), of debug mt19937 solve]
  obtain out where "run debug mt19937 solve (opt_n_ploidy options) options file = Inr out"
    by blast
  then have "main debug mt19937 solve options file = Returned 0 (Some out)"
    using assms(1) by (simp only: main_def if_True sum.case)
  then show ?thesis by blast
qed

section \<open>Ploidy mismatch\<close>

text \<open>
  Claim C5, as the code has it. When a marker that is read (a marker with one
  alternative allele: the others are skipped before their genotypes are looked at)
  holds a known genotype whose number of alleles differs from the configured ploidy,
  the whole load fails with the data-format error, whatever the markers and the
  genotypes after it hold; the run ends there, \<^verbatim>\<open>main\<close> returns the status 1 and
  no output file is written. No genotype column that is read before that genotype is
  empty: the code applies \<^verbatim>\<open>back()\<close> to what it reads from such a column.
\<close>

theorem ploidy_mismatch_aborts_load:
  assumes "records file = earlier @ r # later" and "\<not> polyallelic r"
    and "genotypeInfos r = left @ genotype_info # right"
    and "read_genotype genotype_info \<noteq> []"
    and "\<not> is_unknown (read_genotype genotype_info)"
    and "get_ploidy (read_genotype genotype_info) \<noteq> opt_n_ploidy options"
    and "\<forall>r'\<in>set earlier. \<not> polyallelic r' \<longrightarrow>
           (\<forall>g\<in>set (genotypeInfos r'). read_genotype g \<noteq> [])"
    and "\<forall>g\<in>set left. read_genotype g \<noteq> []"
  shows "read_vcf (opt_n_ploidy options) file =
           Inl (IOError ''Input ploidy does not match VCF genotypes'') \<and>
         run debug mt19937 solve (opt_n_ploidy options) options file =
           Inl (IOError ''Input ploidy does not match VCF genotypes'') \<and>
         main debug mt19937 solve options file = Returned 1 None"
proof -
  have m: "mismatch (opt_n_ploidy options) genotype_info"
    using assms(4,5,6) by (simp add: mismatch_def)
  have s: "read_samples (opt_n_ploidy options) (genotypeInfos r)
             (replicate (Suc (opt_n_ploidy options)) 0) =
           Inl (IOError ''Input ploidy does not match VCF genotypes'')"
    unfolding assms(3) using assms(8) m by (rule read_samples_mismatch)
  from read_records_mismatch[OF assms(7,2) s]
  have v: "read_vcf (opt_n_ploidy options) file =
           Inl (IOError ''Input ploidy does not match VCF genotypes'')"
    by (simp add: read_vcf_def assms(1))
  then have r: "run debug mt19937 solve (opt_n_ploidy options) options file =
           Inl (IOError ''Input ploidy does not match VCF genotypes'')"
    by (simp add: run_def)
  then have "main debug mt19937 solve options file = Returned 1 None"
    by (cases "opt_n_ploidy options \<in> set [2..<9]")
       (simp_all only: main_def outcome_of_def if_True if_False sum.case error.case)
  with v r show ?thesis by simp
qed

text \<open>The genotype \<open>0/1/1\<close> after the genotype \<open>0/1\<close>, under ploidy 2.\<close>

theorem ploidy_mismatch_aborts_load_witness:
  "records triploid_file = [] @ hd (records triploid_file) # [] \<and>
   \<not> polyallelic (hd (records triploid_file)) \<and>
   genotypeInfos (hd (records triploid_file)) = [''0/1''] @ ''0/1/1'' # [] \<and>
   read_genotype ''0/1/1'' \<noteq> [] \<and>
   \<not> is_unknown (read_genotype ''0/1/1'') \<and>
   get_ploidy (read_genotype ''0/1/1'') = 3 \<and>
   opt_n_ploidy one_founder = 2 \<and>
   list_all (\<lambda>g. read_genotype g \<noteq> []) [''0/1''] \<and>
   read_vcf 2 triploid_file = Inl (IOError ''Input ploidy does not match VCF genotypes'') \<and>
   main True (\<lambda>seed i. 0) (\<lambda>n_ploidy haplotypes_m n_founders dosages_d_in. None)
     one_founder triploid_file = Returned 1 None \<and>
   main False (\<lambda>seed i. 0) (\<lambda>n_ploidy haplotypes_m n_founders dosages_d_in. None)
     one_founder triploid_file = Returned 1 None"
proof -
  have h1: "records triploid_file = [] @ hd (records triploid_file) # []"
    by (simp add: triploid_file_def)
  have h2: "\<not> polyallelic (hd (records triploid_file))"
    by (simp add: triploid_file_def polyallelic_def)
  have h3: "genotypeInfos (hd (records triploid_file)) = [''0/1''] @ ''0/1/1'' # []"
    by (simp add: triploid_file_def)
  have h4: "read_genotype ''0/1/1'' \<noteq> []" by (simp add: read_genotype_def)
  have h5: "\<not> is_unknown (read_genotype ''0/1/1'')"
    by (simp add: read_genotype_def is_unknown_def)
  have p3: "get_ploidy (read_genotype ''0/1/1'') = 3"
    by (simp add: read_genotype_def get_ploidy_def)
  have p2: "opt_n_ploidy one_founder = 2" by (simp add: one_founder_def)
  have h6: "get_ploidy (read_genotype ''0/1/1'') \<noteq> opt_n_ploidy one_founder"
    by (simp add: p3 p2)
  have h7: "\<forall>r'\<in>set []. \<not> polyallelic r' \<longrightarrow>
      (\<forall>g\<in>set (genotypeInfos r'). read_genotype g \<noteq> [])"
    by simp
  have h8: "\<forall>g\<in>set [''0/1'']. read_genotype g \<noteq> []"
    by (simp add: read_genotype_def)
  have h9: "list_all (\<lambda>g. read_genotype g \<noteq> []) [''0/1'']"
    by (simp add: read_genotype_def)
  note c = ploidy_mismatch_aborts_load[OF h1 h2 h3 h4 h5 h6 h7 h8, unfolded p2]
  note ct = c[of True "\<lambda>seed i. 0" "\<lambda>n_ploidy haplotypes_m n_founders dosages_d_in. None"]
  note cf = c[of False "\<lambda>seed i. 0" "\<lambda>n_ploidy haplotypes_m n_founders dosages_d_in. None"]
  from ct have v: "read_vcf 2 triploid_file =
      Inl (IOError ''Input ploidy does not match VCF genotypes'')" by (rule conjunct1)
  from ct have mt: "main True (\<lambda>seed i. 0)
     (\<lambda>n_ploidy haplotypes_m n_founders dosages_d_in. None)
     one_founder triploid_file = Returned 1 None" by (rule conjunct2[THEN conjunct2])
  from cf have mf: "main False (\<lambda>seed i. 0)
     (\<lambda>n_ploidy haplotypes_m n_founders dosages_d_in. None)
     one_founder triploid_file = Returned 1 None" by (rule conjunct2[THEN conjunct2])
  show ?thesis
    by (rule conjI, rule h1, rule conjI, rule h2, rule conjI, rule h3, rule conjI, rule h4,
        rule conjI, rule h5, rule conjI, rule p3, rule conjI, rule p2, rule conjI, rule h9,
        rule conjI, rule v, rule conjI, rule mt, rule mf)
qed

text \<open>
  Claim C5 as the specification states it, for every known genotype of the file,
  fails on a marker with two alternative alleles: the genotype \<open>0/1/1\<close> is
  known and has three alleles, the configured ploidy is 2, and the marker is skipped
  before its genotypes are looked at. The load succeeds with the one other marker,
  and \<^verbatim>\<open>main\<close> returns the status 0 with an output file written, in either build.
\<close>

theorem ploidy_mismatch_in_polyallelic_marker:
  "hd (records polyallelic_file) \<in> set (records polyallelic_file) \<and>
   ''0/1/1'' \<in> set (genotypeInfos (hd (records polyallelic_file))) \<and>
   read_genotype ''0/1/1'' = ''011'' \<and>
   \<not> is_unknown (read_genotype ''0/1/1'') \<and>
   get_ploidy (read_genotype ''0/1/1'') = 3 \<and>
   opt_n_ploidy one_founder = 2 \<and>
   polyallelic (hd (records polyallelic_file)) \<and>
   read_vcf 2 polyallelic_file =
     Inr ([''chr1''], \<lparr>positions = [(0, 12)], alleles = [(''G'', ''T'')]\<rparr>, [[0, 1, 0]]) \<and>
   (\<exists>out. main True (\<lambda>seed i. 0) (\<lambda>n_ploidy haplotypes_m n_founders dosages_d_in. None)
            one_founder polyallelic_file = Returned 0 (Some out)) \<and>
   (\<exists>out. main False (\<lambda>seed i. 0) (\<lambda>n_ploidy haplotypes_m n_founders dosages_d_in. None)
            one_founder polyallelic_file = Returned 0 (Some out))"
proof -
  have h1: "hd (records polyallelic_file) \<in> set (records polyallelic_file)"
    by (simp add: polyallelic_file_def)
  have h2: "''0/1/1'' \<in> set (genotypeInfos (hd (records polyallelic_file)))"
    by (simp add: polyallelic_file_def)
  have h3: "read_genotype ''0/1/1'' = ''011''" by (simp add: read_genotype_def)
  have h4: "\<not> is_unknown (read_genotype ''0/1/1'')"
    by (simp add: read_genotype_def is_unknown_def)
  have h5: "get_ploidy (read_genotype ''0/1/1'') = 3"
    by (simp add: read_genotype_def get_ploidy_def)
  have p2: "opt_n_ploidy one_founder = 2" by (simp add: one_founder_def)
  have h6: "polyallelic (hd (records polyallelic_file))"
    by (simp add: polyallelic_file_def polyallelic_def)
  have l: "read_vcf 2 polyallelic_file =
     Inr ([''chr1''], \<lparr>positions = [(0, 12)], alleles = [(''G'', ''T'')]\<rparr>, [[0, 1, 0]])"
    by (simp add: read_vcf_def polyallelic_file_def polyallelic_def read_sample_def
        read_genotype_def is_unknown_def get_ploidy_def get_dosage_def numeral_3_eq_3)
  have a1: "opt_n_ploidy one_founder \<in> set [2..<9]" by (simp add: p2)
  have a3: "[[0, 1, 0 :: rat]] \<noteq> []" by simp
  have a4: "1 \<le> opt_n_founders one_founder" by (simp add: one_founder_def)
  have a5: "opt_n_founders one_founder \<le> opt_n_samples one_founder * opt_n_ploidy one_founder"
    by (simp add: one_founder_def)
  have a6: "opt_n_samples one_founder * opt_n_ploidy one_founder < 2 ^ 32"
    by (simp add: one_founder_def)
  have a7: "\<not> opt_mip one_founder" by (simp add: one_founder_def)
  note m = main_descent_succeeds[OF a1 l[folded p2] a3 a4 a5 a6 a7]
  show ?thesis
    by (rule conjI, rule h1, rule conjI, rule h2, rule conjI, rule h3, rule conjI, rule h4,
        rule conjI, rule h5, rule conjI, rule p2, rule conjI, rule h6, rule conjI, rule l,
        rule conjI, rule m, rule m)
qed

text \<open>
  An empty genotype column in front of the genotype of another size: the load ends
  in the \<^verbatim>\<open>back()\<close> of an empty vector, before the ploidy is looked at.
\<close>

lemma empty_column_before_mismatch:
  "read_vcf 2 \<lparr>contigNames = [''chr1''],
               records = [\<lparr>rID = 0, beginPos = 10, ref = ''A'', alt = ''C'',
                           genotypeInfos = ['''', ''0/1/1'']\<rparr>]\<rparr> =
     Inl (Undefined ''back() of an empty genotype'')"
  by (simp add: read_vcf_def polyallelic_def read_sample_def read_genotype_def)

section \<open>Configuration\<close>

text \<open>
  With more founders than \<open>n_samples * n_ploidy\<close> the debug build fails the
  assertion of \<^verbatim>\<open>simulate_founders_distribution\<close>.
\<close>

lemma too_many_founders_assert:
  assumes "n_samples * n_ploidy < n_founders"
  shows "simulate_founders_distribution True founders_d n_founders n_samples n_ploidy generator =
           Inl (AssertionFailed (if n_samples = 0 then ''n_samples > 0''
                                 else ''n_founders <= n_samples * n_ploidy''))"
proof -
  have "uint32 (n_samples * n_ploidy) \<le> n_samples * n_ploidy"
    by (simp add: uint32_def)
  with assms have "\<not> n_founders \<le> uint32 (n_samples * n_ploidy)" by simp
  then show ?thesis by (simp add: simulate_founders_distribution_def)
qed

text \<open>
  Without the assertions the loop runs with a number of draws that has wrapped
  around. With an excess of two founders or more no multiplicity wraps around,
  whatever the stream of random numbers is: the multiplicities sum to
  \<open>2^32 + n_samples * n_ploidy\<close>, and the fill runs past the end of the map.
\<close>

lemma too_many_founders_overrun:
  assumes "n_samples * n_ploidy + 2 \<le> n_founders" and "n_founders < 2 ^ 32"
  shows "\<exists>founders_d generator'.
           simulate_founders_distribution False [] n_founders n_samples n_ploidy generator =
             Inr (founders_d, generator') \<and>
           length founders_d = n_founders \<and>
           sum_list founders_d = 2 ^ 32 + n_samples * n_ploidy \<and>
           simulate_haplotypes_map False founders_d n_samples n_ploidy generator' =
             Inl (Undefined ''fill_n past the end of the haplotypes map'')"
proof -
  define P where "P = n_samples * n_ploidy"
  have lt: "P < n_founders" and P2: "P + 2 \<le> n_founders" using assms(1) by (simp_all add: P_def)
  have pos: "1 \<le> n_founders" using assms(1) by simp
  define n_draws where "n_draws = (2::nat) ^ 32 - (n_founders - P)"
  have nd: "uint32 (uint32 P + 2 ^ 32 - uint32 n_founders) = n_draws"
    unfolding n_draws_def using lt assms(2) by (rule n_draws_wrapped)
  define start where "start = replicate n_founders (1::nat)"
  define drawn where "drawn = draw_founders n_draws n_founders start generator"
  define founders_d where "founders_d = fst drawn"
  define generator' where "generator' = snd drawn"
  have sfd: "simulate_founders_distribution False [] n_founders n_samples n_ploidy generator =
               Inr (founders_d, generator')"
    unfolding simulate_founders_distribution_def P_def[symmetric] nd resize_empty
    using pos by (simp add: founders_d_def generator'_def drawn_def start_def)
  have s0: "sum_list start + n_draws + 1 < 2 ^ 32 + n_founders"
    using P2 assms(2) by (simp add: start_def sum_list_replicate n_draws_def)
  have spec: "length founders_d = n_founders \<and>
         sum_list founders_d = sum_list start + n_draws \<and>
         (\<forall>f<n_founders. 1 \<le> founders_d ! f)"
    unfolding founders_d_def drawn_def
    by (rule draw_founders_spec[OF _ pos assms(2) s0]) (simp_all add: start_def)
  then have len: "length founders_d = n_founders"
    and sum: "sum_list founders_d = 2 ^ 32 + P"
    using lt assms(2) by (simp_all add: start_def sum_list_replicate n_draws_def)
  have "P < length (fill_founders founders_d)" by (simp add: length_fill_founders sum)
  then have shm: "simulate_haplotypes_map False founders_d n_samples n_ploidy generator' =
             Inl (Undefined ''fill_n past the end of the haplotypes map'')"
    by (simp add: simulate_haplotypes_map_def P_def)
  show ?thesis using sfd len sum shm unfolding P_def by blast
qed

text \<open>
  The run of such a configuration, in the two builds: it ends in the load, or the
  debug build aborts on the assertion and the build without assertions writes past
  the end of the map. The fitting strategy and the solver play no part.
\<close>

lemma too_many_founders_run:
  assumes "opt_n_samples options * ploidy + 2 \<le> opt_n_founders options"
    and "opt_n_founders options < 2 ^ 32" and "0 < opt_n_samples options"
  shows "run True mt19937 solve ploidy options file =
           (case read_vcf ploidy file of
              Inl e \<Rightarrow> Inl e
            | Inr loaded \<Rightarrow> Inl (AssertionFailed ''n_founders <= n_samples * n_ploidy''))"
    and "run False mt19937 solve ploidy options file =
           (case read_vcf ploidy file of
              Inl e \<Rightarrow> Inl e
            | Inr loaded \<Rightarrow> Inl (Undefined ''fill_n past the end of the haplotypes map''))"
proof -
  have lt: "opt_n_samples options * ploidy < opt_n_founders options" using assms(1) by simp
  have a: "simulate_founders_distribution True [] (opt_n_founders options)
             (opt_n_samples options) ploidy (mt19937 (opt_seed options)) =
           Inl (AssertionFailed ''n_founders <= n_samples * n_ploidy'')"
    using too_many_founders_assert[OF lt, of "[]" "mt19937 (opt_seed options)"] assms(3)
    by simp
  from too_many_founders_overrun[OF assms(1,2), of "mt19937 (opt_seed options)"]
  obtain founders_d generator' where
    sfd: "simulate_founders_distribution False [] (opt_n_founders options)
            (opt_n_samples options) ploidy (mt19937 (opt_seed options)) =
              Inr (founders_d, generator')"
    and shm: "simulate_haplotypes_map False founders_d (opt_n_samples options) ploidy
                generator' = Inl (Undefined ''fill_n past the end of the haplotypes map'')"
    by blast
  show "run True mt19937 solve ploidy options file =
           (case read_vcf ploidy file of
              Inl e \<Rightarrow> Inl e
            | Inr loaded \<Rightarrow> Inl (AssertionFailed ''n_founders <= n_samples * n_ploidy''))"
  proof (cases "read_vcf ploidy file")
    case (Inl e)
    then show ?thesis by (simp add: run_def)
  next
    case (Inr loaded)
    obtain contig_names vs dosages_v where l: "loaded = (contig_names, vs, dosages_v)"
      by (cases loaded) auto
    show ?thesis by (simp add: run_def Inr l a)
  qed
  show "run False mt19937 solve ploidy options file =
           (case read_vcf ploidy file of
              Inl e \<Rightarrow> Inl e
            | Inr loaded \<Rightarrow> Inl (Undefined ''fill_n past the end of the haplotypes map''))"
  proof (cases "read_vcf ploidy file")
    case (Inl e)
    then show ?thesis by (simp add: run_def)
  next
    case (Inr loaded)
    obtain contig_names vs dosages_v where l: "loaded = (contig_names, vs, dosages_v)"
      by (cases loaded) auto
    show ?thesis by (simp add: run_def Inr l sfd shm)
  qed
qed

text \<open>
  Claim C6: a configuration with more founders than \<open>n_samples * n_ploidy\<close> is
  rejected as a configuration error, reported before the fitting starts, with a
  status other than 0. The code has no such check: the options are parsed without
  it, the file is loaded, and only \<^verbatim>\<open>simulate_founders_distribution\<close> looks at the
  two numbers, in an assertion. Six founders for two diploid samples, on a file that
  loads, for every seeding of the generator and every solver: the debug build aborts
  on the assertion, which is no error that \<^verbatim>\<open>main\<close> reports and no status that
  it returns; the build without assertions draws \<open>2^32 - 2\<close> times and then writes
  past the end of the map.
\<close>

theorem too_many_founders_not_rejected:
  "opt_n_samples six_founders * opt_n_ploidy six_founders < opt_n_founders six_founders \<and>
   read_vcf 2 diploid_file =
     Inr ([''chr1''], \<lparr>positions = [(0, 10)], alleles = [(''A'', ''C'')]\<rparr>, [[0, 1, 1]]) \<and>
   main True mt19937 solve six_founders diploid_file =
     Aborted ''n_founders <= n_samples * n_ploidy'' \<and>
   uint32 (uint32 (2 * 2) + 2 ^ 32 - uint32 6) = 2 ^ 32 - 2 \<and>
   main False mt19937 solve six_founders diploid_file =
     Unspecified ''fill_n past the end of the haplotypes map''"
proof -
  have h: "opt_n_samples six_founders * opt_n_ploidy six_founders
             < opt_n_founders six_founders"
    by (simp add: six_founders_def)
  have p: "opt_n_ploidy six_founders = 2" by (simp add: six_founders_def)
  have s: "opt_n_ploidy six_founders \<in> set [2..<9]" by (simp add: p)
  have l: "read_vcf 2 diploid_file =
             Inr ([''chr1''], \<lparr>positions = [(0, 10)], alleles = [(''A'', ''C'')]\<rparr>, [[0, 1, 1]])"
    by (simp add: read_vcf_def diploid_file_def polyallelic_def read_sample_def
        read_genotype_def is_unknown_def get_ploidy_def get_dosage_def numeral_3_eq_3)
  have a1: "opt_n_samples six_founders * 2 + 2 \<le> opt_n_founders six_founders"
    by (simp add: six_founders_def)
  have a2: "opt_n_founders six_founders < 2 ^ 32" by (simp add: six_founders_def)
  have a3: "0 < opt_n_samples six_founders" by (simp add: six_founders_def)
  note r = too_many_founders_run[OF a1 a2 a3, of mt19937 solve diploid_file, unfolded l]
  have rt: "run True mt19937 solve 2 six_founders diploid_file =
              Inl (AssertionFailed ''n_founders <= n_samples * n_ploidy'')"
    using r(1) by simp
  have rf: "run False mt19937 solve 2 six_founders diploid_file =
              Inl (Undefined ''fill_n past the end of the haplotypes map'')"
    using r(2) by simp
  have mt: "main True mt19937 solve six_founders diploid_file =
              Aborted ''n_founders <= n_samples * n_ploidy''"
    using s by (simp only: main_def p rt if_True sum.case outcome_of_def error.case)
  have mf: "main False mt19937 solve six_founders diploid_file =
              Unspecified ''fill_n past the end of the haplotypes map''"
    using s by (simp only: main_def p rf if_True sum.case outcome_of_def error.case)
  have d: "uint32 (uint32 (2 * 2) + 2 ^ 32 - uint32 6) = 2 ^ 32 - 2"
    by (simp add: uint32_def)
  show ?thesis
    by (rule conjI, rule h, rule conjI, rule l, rule conjI, rule mt, rule conjI, rule d,
        rule mf)
qed
end
